theory Spec2Isabelle
  imports Main "HOL-Library.Sublist"
begin

section \<open>The notebook \<open>Allocating_Qubits_on_QPU_Devices.ipynb\<close>\<close>

text \<open>
  The notebook is straight-line Python: twelve code cells that call the Amazon Braket SDK
  and print what it returns. The SDK, numpy and the Python runtime's \<open>str\<close> are not part
  of the repository; they are a parameter of the model (\<open>sdk\<close>). Each cell is a function on
  the notebook's state (its variables, and the trace of everything it did), written with
  one combinator per Python construct, so that a cell reads like its source.
\<close>

subsection \<open>Values, requests to the SDK, events\<close>

datatype val =
    Str string
  | IntV int
  | DecV int nat                    \<comment> \<open>a float literal: \<open>DecV 12 1\<close> is \<open>1.2\<close>\<close>
  | Quot val val                    \<comment> \<open>float division, kept symbolic: \<open>np.pi/2\<close>\<close>
  | BoolV bool
  | Tuple "val list"
  | Counts "(string \<times> nat) list"    \<comment> \<open>a \<open>collections.Counter\<close>, in its printed order\<close>
  | Obj nat                         \<comment> \<open>a reference to an object of the SDK\<close>

datatype call =
    Import string "string option"                            \<comment> \<open>\<open>from m import n\<close>, \<open>import m\<close>\<close>
  | GetAttr val string                                       \<comment> \<open>\<open>v.a\<close>\<close>
  | Invoke val "val list" "(string \<times> val) list"              \<comment> \<open>\<open>f(args, kw=...)\<close>\<close>
  | Method val string "val list" "(string \<times> val) list"       \<comment> \<open>\<open>v.m(args, kw=...)\<close>\<close>

type_synonym exn = string

datatype event =
    Read string val                 \<comment> \<open>a variable \<open>x\<close> read, and its value\<close>
  | Bound string val                \<comment> \<open>an assignment \<open>x = v\<close>\<close>
  | Called call "exn + val"         \<comment> \<open>a request to the SDK and its answer\<close>
  | Rendered val "exn + string"     \<comment> \<open>\<open>str(v)\<close> and the text it gave\<close>
  | Printed string                  \<comment> \<open>the text one \<open>print\<close> wrote to stdout\<close>

text \<open>
  The external world: what a request returns (or raises) and how a value prints, each
  after the history so far, so that an answer may depend on every earlier request (a
  task's status may change between two reads).
\<close>

record sdk =
  reply :: "event list \<Rightarrow> call \<Rightarrow> exn + val"
  render :: "event list \<Rightarrow> val \<Rightarrow> exn + string"

datatype error =
    NameError string                \<comment> \<open>a variable read before it was assigned\<close>
  | Raised exn                      \<comment> \<open>an exception raised inside the SDK\<close>

record nb_state =
  vars :: "string \<rightharpoonup> val"
  trace :: "event list"

type_synonym 'a nb = "nb_state \<Rightarrow> (error + 'a) \<times> nb_state"

subsection \<open>Python's constructs\<close>

definition ret :: "'a \<Rightarrow> 'a nb" where
  "ret v s = (Inr v, s)"

text \<open>Sequencing: an exception ends the cell; nothing catches it.\<close>

definition bnd :: "'a nb \<Rightarrow> ('a \<Rightarrow> 'b nb) \<Rightarrow> 'b nb" where
  "bnd m f s = (case m s of (Inl e, s') \<Rightarrow> (Inl e, s') | (Inr v, s') \<Rightarrow> f v s')"

definition emit :: "event \<Rightarrow> unit nb" where
  "emit ev s = (Inr (), s\<lparr>trace := trace s @ [ev]\<rparr>)"

definition request :: "sdk \<Rightarrow> call \<Rightarrow> val nb" where
  "request env c s =
     (let r = reply env (trace s) c
      in (case r of Inl e \<Rightarrow> Inl (Raised e) | Inr v \<Rightarrow> Inr v,
          s\<lparr>trace := trace s @ [Called c r]\<rparr>))"

definition lit :: "val \<Rightarrow> val nb" where
  "lit v = ret v"

text \<open>Reading a variable: a \<open>NameError\<close> when it was never assigned.\<close>

definition var :: "string \<Rightarrow> val nb" where
  "var x s =
     (case vars s x of
        None \<Rightarrow> (Inl (NameError x), s)
      | Some v \<Rightarrow> (Inr v, s\<lparr>trace := trace s @ [Read x v]\<rparr>))"

definition attr :: "sdk \<Rightarrow> val nb \<Rightarrow> string \<Rightarrow> val nb" where
  "attr env m a = bnd m (\<lambda>v. request env (GetAttr v a))"

primrec evals :: "val nb list \<Rightarrow> val list nb" where
  "evals [] = ret []"
| "evals (m # ms) = bnd m (\<lambda>v. bnd (evals ms) (\<lambda>vs. ret (v # vs)))"

primrec kwevals :: "(string \<times> val nb) list \<Rightarrow> (string \<times> val) list nb" where
  "kwevals [] = ret []"
| "kwevals (k # ks) = bnd (snd k) (\<lambda>v. bnd (kwevals ks) (\<lambda>vs. ret ((fst k, v) # vs)))"

definition invoke :: "sdk \<Rightarrow> val nb \<Rightarrow> val nb list \<Rightarrow> (string \<times> val nb) list \<Rightarrow> val nb" where
  "invoke env f args kwargs =
     bnd f (\<lambda>fv. bnd (evals args) (\<lambda>vs. bnd (kwevals kwargs) (\<lambda>ks.
       request env (Invoke fv vs ks))))"

definition method_call ::
  "sdk \<Rightarrow> val nb \<Rightarrow> string \<Rightarrow> val nb list \<Rightarrow> (string \<times> val nb) list \<Rightarrow> val nb" where
  "method_call env m name args kwargs =
     bnd m (\<lambda>r. bnd (evals args) (\<lambda>vs. bnd (kwevals kwargs) (\<lambda>ks.
       request env (Method r name vs ks))))"

definition tuple :: "val nb list \<Rightarrow> val nb" where
  "tuple ms = bnd (evals ms) (\<lambda>vs. ret (Tuple vs))"

text \<open>
  \<open>a / b\<close> on floats. The only division of the notebook is \<open>np.pi/2\<close>; its value is kept
  as the symbolic quotient.
\<close>

definition divide_py :: "val nb \<Rightarrow> val nb \<Rightarrow> val nb" where
  "divide_py m1 m2 = bnd m1 (\<lambda>a. bnd m2 (\<lambda>b. ret (Quot a b)))"

text \<open>\<open>str(v)\<close>: a \<open>str\<close> is its own text; every other value is rendered outside.\<close>

definition to_str :: "sdk \<Rightarrow> val \<Rightarrow> string nb" where
  "to_str env v s =
     (let r = (case v of Str t \<Rightarrow> Inr t | _ \<Rightarrow> render env (trace s) v)
      in (case r of Inl e \<Rightarrow> Inl (Raised e) | Inr t \<Rightarrow> Inr t,
          s\<lparr>trace := trace s @ [Rendered v r]\<rparr>))"

primrec strs :: "sdk \<Rightarrow> val list \<Rightarrow> string list nb" where
  "strs env [] = ret []"
| "strs env (v # vs) = bnd (to_str env v) (\<lambda>t. bnd (strs env vs) (\<lambda>ts. ret (t # ts)))"

text \<open>
  An f-string: literal text and replacement fields; a field is formatted as soon as it
  is evaluated.
\<close>

datatype fpart = Text string | Field "val nb"

primrec fparts :: "sdk \<Rightarrow> fpart list \<Rightarrow> string nb" where
  "fparts env [] = ret []"
| "fparts env (p # ps) =
     (case p of
        Text t \<Rightarrow> bnd (fparts env ps) (\<lambda>ts. ret (t @ ts))
      | Field m \<Rightarrow>
          bnd m (\<lambda>v. bnd (to_str env v) (\<lambda>t. bnd (fparts env ps) (\<lambda>ts. ret (t @ ts)))))"

definition fstring :: "sdk \<Rightarrow> fpart list \<Rightarrow> val nb" where
  "fstring env parts = bnd (fparts env parts) (\<lambda>t. ret (Str t))"

definition nl :: string where
  "nl = [CHR 0x0A]"

primrec join_sp :: "string list \<Rightarrow> string" where
  "join_sp [] = []"
| "join_sp (t # ts) = (if ts = [] then t else t @ '' '' @ join_sp ts)"

text \<open>\<open>print(a, b, ...)\<close>: the arguments' texts, separated by spaces, and a newline.\<close>

definition print_py :: "sdk \<Rightarrow> val nb list \<Rightarrow> unit nb" where
  "print_py env args =
     bnd (evals args) (\<lambda>vs. bnd (strs env vs) (\<lambda>ts. emit (Printed (join_sp ts @ nl))))"

definition assign :: "string \<Rightarrow> val nb \<Rightarrow> unit nb" where
  "assign x m =
     bnd m (\<lambda>v s. (Inr (), s\<lparr>vars := (vars s)(x \<mapsto> v), trace := trace s @ [Bound x v]\<rparr>))"

definition expr_stmt :: "val nb \<Rightarrow> unit nb" where
  "expr_stmt m = bnd m (\<lambda>_. ret ())"

definition import_py :: "sdk \<Rightarrow> string \<Rightarrow> string option \<Rightarrow> string \<Rightarrow> unit nb" where
  "import_py env module name x = assign x (request env (Import module name))"

primrec seq :: "unit nb list \<Rightarrow> unit nb" where
  "seq [] = ret ()"
| "seq (m # ms) = bnd m (\<lambda>_. seq ms)"

subsection \<open>The cells, named by their execution counts\<close>

text \<open>
  \<^verbatim>\<open>
  from braket.aws import AwsDevice
  from braket.circuits import Circuit
  import numpy as np
  \<close>
\<close>

definition cell_1 :: "sdk \<Rightarrow> unit nb" where
  "cell_1 env = seq
     [import_py env ''braket.aws'' (Some ''AwsDevice'') ''AwsDevice'',
      import_py env ''braket.circuits'' (Some ''Circuit'') ''Circuit'',
      import_py env ''numpy'' None ''np'']"

text \<open>
  \<^verbatim>\<open>
  my_bucket = "amazon-braket-Your-Bucket-Name"
  my_prefix = "Your-Folder-Name"
  s3_folder = (my_bucket, my_prefix)
  \<close>
\<close>

definition cell_2 :: "sdk \<Rightarrow> unit nb" where
  "cell_2 env = seq
     [assign ''my_bucket'' (lit (Str ''amazon-braket-Your-Bucket-Name'')),
      assign ''my_prefix'' (lit (Str ''Your-Folder-Name'')),
      assign ''s3_folder'' (tuple [var ''my_bucket'', var ''my_prefix''])]"

text \<open>
  \<^verbatim>\<open>
  device = AwsDevice("arn:aws:braket:::device/qpu/rigetti/Aspen-8")
  connectivity_graph = device.properties.paradigm.connectivity.connectivityGraph
  print(f"the connectivity of {device.name} is: {connectivity_graph}")
  \<close>
\<close>

definition rigetti_arn :: string where
  "rigetti_arn = ''arn:aws:braket:::device/qpu/rigetti/Aspen-8''"

definition ionq_arn :: string where
  "ionq_arn = ''arn:aws:braket:::device/qpu/ionq/ionQdevice''"

definition cell_3 :: "sdk \<Rightarrow> unit nb" where
  "cell_3 env = seq
     [assign ''device'' (invoke env (var ''AwsDevice'') [lit (Str rigetti_arn)] []),
      assign ''connectivity_graph''
        (attr env (attr env (attr env (attr env (var ''device'')
           ''properties'') ''paradigm'') ''connectivity'') ''connectivityGraph''),
      print_py env
        [fstring env
           [Text ''the connectivity of '', Field (attr env (var ''device'') ''name''),
            Text '' is: '', Field (var ''connectivity_graph'')]]]"

text \<open>
  \<^verbatim>\<open>
  circuit = Circuit()
  circuit.h(0).cnot(0,2).cnot(0,4)
  print(circuit)
  rigetti_rewiring = device.run(circuit, s3_folder, shots=100)
  \<close>
\<close>

definition cell_4 :: "sdk \<Rightarrow> unit nb" where
  "cell_4 env = seq
     [assign ''circuit'' (invoke env (var ''Circuit'') [] []),
      expr_stmt
        (method_call env (method_call env (method_call env (var ''circuit'')
           ''h'' [lit (IntV 0)] [])
           ''cnot'' [lit (IntV 0), lit (IntV 2)] [])
           ''cnot'' [lit (IntV 0), lit (IntV 4)] []),
      print_py env [var ''circuit''],
      assign ''rigetti_rewiring''
        (method_call env (var ''device'') ''run'' [var ''circuit'', var ''s3_folder'']
           [(''shots'', lit (IntV 100))])]"

text \<open>
  \<^verbatim>\<open>
  print("Status of task:", rigetti_rewiring.state())
  \<close>
\<close>

definition cell_6 :: "sdk \<Rightarrow> unit nb" where
  "cell_6 env = seq
     [print_py env
        [lit (Str ''Status of task:''), method_call env (var ''rigetti_rewiring'') ''state'' [] []]]"

text \<open>
  \<^verbatim>\<open>
  result = rigetti_rewiring.result()
  counts = result.measurement_counts
  print("Measurement counts:", counts)
  print("The compiled circuit is:\n", result.additional_metadata.rigettiMetadata.compiledProgram)
  \<close>
\<close>

definition cell_7 :: "sdk \<Rightarrow> unit nb" where
  "cell_7 env = seq
     [assign ''result'' (method_call env (var ''rigetti_rewiring'') ''result'' [] []),
      assign ''counts'' (attr env (var ''result'') ''measurement_counts''),
      print_py env [lit (Str ''Measurement counts:''), var ''counts''],
      print_py env
        [lit (Str (''The compiled circuit is:'' @ nl)),
         attr env (attr env (attr env (var ''result'')
           ''additional_metadata'') ''rigettiMetadata'') ''compiledProgram'']]"

text \<open>
  \<^verbatim>\<open>
  circuit = Circuit()
  circuit.rz(0,np.pi/2).cnot(1,2).x(3)
  print(circuit)
  rigetti_task = device.run(circuit, s3_folder, shots=100, disable_qubit_rewiring=True)
  \<close>
\<close>

definition cell_8 :: "sdk \<Rightarrow> unit nb" where
  "cell_8 env = seq
     [assign ''circuit'' (invoke env (var ''Circuit'') [] []),
      expr_stmt
        (method_call env (method_call env (method_call env (var ''circuit'')
           ''rz'' [lit (IntV 0), divide_py (attr env (var ''np'') ''pi'') (lit (IntV 2))] [])
           ''cnot'' [lit (IntV 1), lit (IntV 2)] [])
           ''x'' [lit (IntV 3)] []),
      print_py env [var ''circuit''],
      assign ''rigetti_task''
        (method_call env (var ''device'') ''run'' [var ''circuit'', var ''s3_folder'']
           [(''shots'', lit (IntV 100)), (''disable_qubit_rewiring'', lit (BoolV True))])]"

text \<open>
  \<^verbatim>\<open>
  print("Status of task:", rigetti_task.state())
  \<close>
\<close>

definition cell_9 :: "sdk \<Rightarrow> unit nb" where
  "cell_9 env = seq
     [print_py env
        [lit (Str ''Status of task:''), method_call env (var ''rigetti_task'') ''state'' [] []]]"

text \<open>
  \<^verbatim>\<open>
  result = rigetti_task.result()
  counts = result.measurement_counts
  print("Measurement counts:", counts)
  print("The compiled circuit is:\n", result.additional_metadata.rigettiMetadata.compiledProgram)
  \<close>
\<close>

definition cell_10 :: "sdk \<Rightarrow> unit nb" where
  "cell_10 env = seq
     [assign ''result'' (method_call env (var ''rigetti_task'') ''result'' [] []),
      assign ''counts'' (attr env (var ''result'') ''measurement_counts''),
      print_py env [lit (Str ''Measurement counts:''), var ''counts''],
      print_py env
        [lit (Str (''The compiled circuit is:'' @ nl)),
         attr env (attr env (attr env (var ''result'')
           ''additional_metadata'') ''rigettiMetadata'') ''compiledProgram'']]"

text \<open>
  \<^verbatim>\<open>
  circuit = Circuit()
  circuit.h(0).cnot(0,2).rz(1,1.2)
  device = AwsDevice("arn:aws:braket:::device/qpu/ionq/ionQdevice")
  ionq_task = device.run(circuit, s3_folder, shots=100)
  \<close>
\<close>

definition cell_23 :: "sdk \<Rightarrow> unit nb" where
  "cell_23 env = seq
     [assign ''circuit'' (invoke env (var ''Circuit'') [] []),
      expr_stmt
        (method_call env (method_call env (method_call env (var ''circuit'')
           ''h'' [lit (IntV 0)] [])
           ''cnot'' [lit (IntV 0), lit (IntV 2)] [])
           ''rz'' [lit (IntV 1), lit (DecV 12 1)] []),
      assign ''device'' (invoke env (var ''AwsDevice'') [lit (Str ionq_arn)] []),
      assign ''ionq_task''
        (method_call env (var ''device'') ''run'' [var ''circuit'', var ''s3_folder'']
           [(''shots'', lit (IntV 100))])]"

text \<open>
  \<^verbatim>\<open>
  print("Status of task:", ionq_task.state())
  \<close>
\<close>

definition cell_26 :: "sdk \<Rightarrow> unit nb" where
  "cell_26 env = seq
     [print_py env
        [lit (Str ''Status of task:''), method_call env (var ''ionq_task'') ''state'' [] []]]"

text \<open>
  \<^verbatim>\<open>
  result = ionq_task.result()
  counts = result.measurement_counts
  print("Measurement counts:", counts)
  \<close>
\<close>

definition cell_29 :: "sdk \<Rightarrow> unit nb" where
  "cell_29 env = seq
     [assign ''result'' (method_call env (var ''ionq_task'') ''result'' [] []),
      assign ''counts'' (attr env (var ''result'') ''measurement_counts''),
      print_py env [lit (Str ''Measurement counts:''), var ''counts'']]"

text \<open>The cells in the order of the document, which is the order they were run in.\<close>

definition cells :: "sdk \<Rightarrow> unit nb list" where
  "cells env =
     [cell_1 env, cell_2 env, cell_3 env, cell_4 env, cell_6 env, cell_7 env,
      cell_8 env, cell_9 env, cell_10 env, cell_23 env, cell_26 env, cell_29 env]"

definition fresh :: nb_state where
  "fresh = \<lparr>vars = Map.empty, trace = []\<rparr>"

definition run_notebook :: "sdk \<Rightarrow> (error + unit) \<times> nb_state" where
  "run_notebook env = seq (cells env) fresh"

text \<open>The first \<open>n\<close> cells only.\<close>

definition run_cells :: "sdk \<Rightarrow> nat \<Rightarrow> (error + unit) \<times> nb_state" where
  "run_cells env n = seq (take n (cells env)) fresh"

subsection \<open>Reading a trace\<close>

text \<open>
  The kind of an event: the event without the values the SDK supplied. What the notebook
  does is a sequence of kinds that no answer of the SDK can change, short of ending it.
\<close>

datatype kind =
    KRead string
  | KBound string
  | KImport string "string option"
  | KGetAttr string
  | KInvoke nat "string list"             \<comment> \<open>number of arguments, keywords\<close>
  | KMethod string nat "string list"      \<comment> \<open>name, number of arguments, keywords\<close>
  | KRendered
  | KPrinted

definition call_kind :: "call \<Rightarrow> kind" where
  "call_kind c =
     (case c of
        Import m n \<Rightarrow> KImport m n
      | GetAttr _ a \<Rightarrow> KGetAttr a
      | Invoke _ args kw \<Rightarrow> KInvoke (length args) (map fst kw)
      | Method _ name args kw \<Rightarrow> KMethod name (length args) (map fst kw))"

definition kind :: "event \<Rightarrow> kind" where
  "kind ev =
     (case ev of
        Read x _ \<Rightarrow> KRead x
      | Bound x _ \<Rightarrow> KBound x
      | Called c _ \<Rightarrow> call_kind c
      | Rendered _ _ \<Rightarrow> KRendered
      | Printed _ \<Rightarrow> KPrinted)"

text \<open>The steps of each cell, statement by statement, in the order of its source.\<close>

definition steps_1 :: "kind list" where
  "steps_1 =
     [KImport ''braket.aws'' (Some ''AwsDevice''), KBound ''AwsDevice'',
      KImport ''braket.circuits'' (Some ''Circuit''), KBound ''Circuit'',
      KImport ''numpy'' None, KBound ''np'']"

definition steps_2 :: "kind list" where
  "steps_2 =
     [KBound ''my_bucket'',
      KBound ''my_prefix'',
      KRead ''my_bucket'', KRead ''my_prefix'', KBound ''s3_folder'']"

definition steps_3 :: "kind list" where
  "steps_3 =
     [KRead ''AwsDevice'', KInvoke 1 [], KBound ''device'',
      KRead ''device'', KGetAttr ''properties'', KGetAttr ''paradigm'',
      KGetAttr ''connectivity'', KGetAttr ''connectivityGraph'', KBound ''connectivity_graph'',
      KRead ''device'', KGetAttr ''name'', KRendered, KRead ''connectivity_graph'', KRendered,
      KRendered, KPrinted]"

definition steps_4 :: "kind list" where
  "steps_4 =
     [KRead ''Circuit'', KInvoke 0 [], KBound ''circuit'',
      KRead ''circuit'', KMethod ''h'' 1 [], KMethod ''cnot'' 2 [], KMethod ''cnot'' 2 [],
      KRead ''circuit'', KRendered, KPrinted,
      KRead ''device'', KRead ''circuit'', KRead ''s3_folder'', KMethod ''run'' 2 [''shots''],
      KBound ''rigetti_rewiring'']"

definition steps_6 :: "kind list" where
  "steps_6 = [KRead ''rigetti_rewiring'', KMethod ''state'' 0 [], KRendered, KRendered, KPrinted]"

definition steps_7 :: "kind list" where
  "steps_7 =
     [KRead ''rigetti_rewiring'', KMethod ''result'' 0 [], KBound ''result'',
      KRead ''result'', KGetAttr ''measurement_counts'', KBound ''counts'',
      KRead ''counts'', KRendered, KRendered, KPrinted,
      KRead ''result'', KGetAttr ''additional_metadata'', KGetAttr ''rigettiMetadata'',
      KGetAttr ''compiledProgram'', KRendered, KRendered, KPrinted]"

definition steps_8 :: "kind list" where
  "steps_8 =
     [KRead ''Circuit'', KInvoke 0 [], KBound ''circuit'',
      KRead ''circuit'', KRead ''np'', KGetAttr ''pi'', KMethod ''rz'' 2 [],
      KMethod ''cnot'' 2 [], KMethod ''x'' 1 [],
      KRead ''circuit'', KRendered, KPrinted,
      KRead ''device'', KRead ''circuit'', KRead ''s3_folder'',
      KMethod ''run'' 2 [''shots'', ''disable_qubit_rewiring''], KBound ''rigetti_task'']"

definition steps_9 :: "kind list" where
  "steps_9 = [KRead ''rigetti_task'', KMethod ''state'' 0 [], KRendered, KRendered, KPrinted]"

definition steps_10 :: "kind list" where
  "steps_10 =
     [KRead ''rigetti_task'', KMethod ''result'' 0 [], KBound ''result'',
      KRead ''result'', KGetAttr ''measurement_counts'', KBound ''counts'',
      KRead ''counts'', KRendered, KRendered, KPrinted,
      KRead ''result'', KGetAttr ''additional_metadata'', KGetAttr ''rigettiMetadata'',
      KGetAttr ''compiledProgram'', KRendered, KRendered, KPrinted]"

definition steps_23 :: "kind list" where
  "steps_23 =
     [KRead ''Circuit'', KInvoke 0 [], KBound ''circuit'',
      KRead ''circuit'', KMethod ''h'' 1 [], KMethod ''cnot'' 2 [], KMethod ''rz'' 2 [],
      KRead ''AwsDevice'', KInvoke 1 [], KBound ''device'',
      KRead ''device'', KRead ''circuit'', KRead ''s3_folder'', KMethod ''run'' 2 [''shots''],
      KBound ''ionq_task'']"

definition steps_26 :: "kind list" where
  "steps_26 = [KRead ''ionq_task'', KMethod ''state'' 0 [], KRendered, KRendered, KPrinted]"

definition steps_29 :: "kind list" where
  "steps_29 =
     [KRead ''ionq_task'', KMethod ''result'' 0 [], KBound ''result'',
      KRead ''result'', KGetAttr ''measurement_counts'', KBound ''counts'',
      KRead ''counts'', KRendered, KRendered, KPrinted]"

text \<open>
  The notebook has three examples: the Rigetti device with automatic allocation
  (cells 3 to 7, after the parameter entry of cell 2), the Rigetti device with the
  allocation the user gives (cells 8 to 10) and the IonQ device (cells 23 to 29).
\<close>

definition example_1 :: "kind list" where
  "example_1 = steps_2 @ steps_3 @ steps_4 @ steps_6 @ steps_7"

definition example_2 :: "kind list" where
  "example_2 = steps_8 @ steps_9 @ steps_10"

definition example_3 :: "kind list" where
  "example_3 = steps_23 @ steps_26 @ steps_29"

definition notebook_steps :: "kind list" where
  "notebook_steps = steps_1 @ example_1 @ example_2 @ example_3"

text \<open>An event that did not raise, and the event an error came from.\<close>

definition succeeded :: "event \<Rightarrow> bool" where
  "succeeded ev =
     (case ev of
        Called _ (Inl _) \<Rightarrow> False
      | Rendered _ (Inl _) \<Rightarrow> False
      | _ \<Rightarrow> True)"

definition failure :: "error \<Rightarrow> event \<Rightarrow> bool" where
  "failure err ev =
     (case ev of
        Called _ (Inl e) \<Rightarrow> err = Raised e
      | Rendered _ (Inl e) \<Rightarrow> err = Raised e
      | _ \<Rightarrow> False)"

text \<open>
  How a run of steps ends. When it returns, its events are the steps \<open>ks\<close> and none of
  them raised. When it raises, its events are a beginning of \<open>ks\<close>, all but the last
  succeeded, and the error is the exception of the last one.
\<close>

definition ends_well :: "kind list \<Rightarrow> event list \<Rightarrow> error + 'a \<Rightarrow> bool" where
  "ends_well ks evs r =
     (case r of
        Inr _ \<Rightarrow> map kind evs = ks \<and> list_all succeeded evs
      | Inl err \<Rightarrow>
          evs \<noteq> [] \<and> prefix (map kind evs) ks \<and> list_all succeeded (butlast evs) \<and>
          failure err (last evs))"

definition bound_in :: "string list \<Rightarrow> nb_state \<Rightarrow> bool" where
  "bound_in xs s = list_all (\<lambda>x. vars s x \<noteq> None) xs"

text \<open>
  What a piece of the notebook does from any state in which the variables \<open>B\<close> are bound:
  it adds events to the trace, they end well for the steps \<open>ks\<close>, and when it returns
  the variables \<open>B'\<close> are bound.
\<close>

definition performs :: "string list \<Rightarrow> kind list \<Rightarrow> string list \<Rightarrow> 'a nb \<Rightarrow> bool" where
  "performs B ks B' m =
     (\<forall>s. bound_in B s \<longrightarrow>
        (case m s of (r, s') \<Rightarrow>
           (\<exists>evs. trace s' = trace s @ evs \<and> ends_well ks evs r) \<and>
           (case r of Inr _ \<Rightarrow> bound_in B' s' | Inl _ \<Rightarrow> True)))"

subsection \<open>The phases of an example\<close>

datatype phase =
    Parameter_entry
  | Device_instantiation
  | Circuit_construction
  | Submission
  | Status_read
  | Result_fetch

definition builders :: "string list" where
  "builders = [''h'', ''cnot'', ''rz'', ''x'']"

definition phase_of :: "kind \<Rightarrow> phase option" where
  "phase_of k =
     (case k of
        KBound x \<Rightarrow>
          (if x \<in> set [''my_bucket'', ''my_prefix'', ''s3_folder''] then Some Parameter_entry
           else None)
      | KRead x \<Rightarrow>
          (if x = ''AwsDevice'' then Some Device_instantiation
           else if x = ''Circuit'' then Some Circuit_construction
           else None)
      | KMethod name _ _ \<Rightarrow>
          (if name \<in> set builders then Some Circuit_construction
           else if name = ''run'' then Some Submission
           else if name = ''state'' then Some Status_read
           else if name = ''result'' then Some Result_fetch
           else None)
      | _ \<Rightarrow> None)"

text \<open>The phases a sequence of steps goes through, each run of one phase counted once.\<close>

definition phases :: "kind list \<Rightarrow> phase list" where
  "phases ks = remdups_adj (List.map_filter phase_of ks)"

definition claimed_order :: "phase list" where
  "claimed_order =
     [Parameter_entry, Device_instantiation, Circuit_construction, Submission, Status_read,
      Result_fetch]"

definition count_kind :: "kind \<Rightarrow> kind list \<Rightarrow> nat" where
  "count_kind k ks = length (filter (\<lambda>k'. k' = k) ks)"

text \<open>The statuses that \<open>state()\<close> returned, in the order they were read.\<close>

primrec statuses :: "event list \<Rightarrow> val list" where
  "statuses [] = []"
| "statuses (ev # evs) =
     (case ev of
        Called (Method _ name _ _) (Inr v) \<Rightarrow>
          (if name = ''state'' then v # statuses evs else statuses evs)
      | _ \<Rightarrow> statuses evs)"

subsection \<open>The run recorded in the notebook's outputs\<close>

text \<open>
  The answers of the SDK and of the service in the run whose outputs the notebook file
  stores. Objects are numbered: 1, 2, 3 the two imported classes and numpy; 10 and 11 the
  Rigetti and IonQ devices, 12 to 15 the Rigetti device's properties down to its
  connectivity graph; 100 upwards the circuits, 200 upwards the tasks, 300 upwards their
  results and 310, 320 upwards the results' metadata, each in the order of creation.
\<close>

definition connectivity_text :: string where
  \<open>connectivity_text =
     ''{'0': ['7'], '1': ['2', '16'], '2': ['1', '3', '15'], '3': ['2', '4'], '' @
     '''4': ['3', '5'], '5': ['4', '6'], '6': ['5', '7'], '7': ['0', '6'], '' @
     '''10': ['11', '17'], '11': ['10', '12', '26'], '12': ['11', '13', '25'], '' @
     '''13': ['12'], '15': ['2', '16'], '16': ['1', '15', '17'], '17': ['10', '16'], '' @
     '''20': ['21', '27'], '21': ['20', '22', '36'], '22': ['21', '23', '35'], '' @
     '''23': ['22', '24'], '24': ['23', '25'], '25': ['12', '24', '26'], '' @
     '''26': ['11', '25', '27'], '27': ['20', '26'], '30': ['31', '37'], '' @
     '''31': ['30', '32'], '32': ['31', '33'], '33': ['32', '34'], '34': ['33', '35'], '' @
     '''35': ['22', '34', '36'], '36': ['21', '35', '37'], '37': ['30', '36']}''\<close>

definition unlines :: "string list \<Rightarrow> string" where
  "unlines ls = concat (map (\<lambda>l. l @ nl) ls)"

definition diagram_1 :: string where
  "diagram_1 = ''T  : |0|1|2|'' @ nl @ unlines
     [''            '',
      ''q0 : -H-C-C-'',
      ''        | | '',
      ''q2 : ---X-|-'',
      ''          | '',
      ''q4 : -----X-'',
      '''']
     @ ''T  : |0|1|2|''"

definition diagram_2 :: string where
  "diagram_2 = ''T  : |   0    |'' @ nl @ unlines
     [''               '',
      ''q0 : -Rz(1.57)-'',
      ''               '',
      ''q1 : -C--------'',
      ''      |        '',
      ''q2 : -X--------'',
      ''               '',
      ''q3 : -X--------'',
      '''']
     @ ''T  : |   0    |''"

definition program_1 :: string where
  \<open>program_1 = unlines
     [''DECLARE ro BIT[3]'',
      ''PRAGMA INITIAL_REWIRING "PARTIAL"'',
      ''RESET'',
      ''RZ(pi) 15'',
      ''RZ(-pi/2) 16'',
      ''RX(-pi/2) 16'',
      ''XY(pi) 16 15'',
      ''RZ(-pi/2) 16'',
      ''RX(-pi/2) 16'',
      ''RZ(pi/2) 16'',
      ''XY(pi) 16 15'',
      ''RZ(-pi/2) 1'',
      ''RX(pi/2) 1'',
      ''CZ 1 16'',
      ''RX(-pi/2) 1'',
      ''RZ(pi/2) 1'',
      ''RX(-pi/2) 15'',
      ''RZ(pi) 16'',
      ''MEASURE 1 ro[2]'',
      ''MEASURE 15 ro[1]'',
      ''MEASURE 16 ro[0]'']\<close>

definition program_2 :: string where
  \<open>program_2 = unlines
     [''DECLARE ro BIT[4]'',
      ''PRAGMA INITIAL_REWIRING "NAIVE"'',
      ''RESET'',
      ''RZ(pi/2) 1'',
      ''RZ(pi) 2'',
      ''XY(pi) 1 2'',
      ''RZ(-pi/2) 1'',
      ''RX(-pi/2) 1'',
      ''RZ(pi/2) 1'',
      ''XY(pi) 1 2'',
      ''RZ(pi/2) 0'',
      ''RX(-pi/2) 2'',
      ''RX(pi) 3'',
      ''MEASURE 3 ro[3]'',
      ''MEASURE 2 ro[2]'',
      ''MEASURE 1 ro[1]'',
      ''MEASURE 0 ro[0]'']\<close>

definition counts_1 :: "(string \<times> nat) list" where
  "counts_1 =
     [(''111'', 27), (''000'', 16), (''110'', 13), (''010'', 13), (''100'', 9), (''101'', 9),
      (''001'', 7), (''011'', 6)]"

definition counts_2 :: "(string \<times> nat) list" where
  "counts_2 =
     [(''0001'', 48), (''0101'', 20), (''0111'', 14), (''0000'', 5), (''1001'', 3),
      (''0011'', 3), (''0110'', 3), (''0100'', 2), (''1000'', 1), (''0010'', 1)]"

definition counts_3 :: "(string \<times> nat) list" where
  "counts_3 = [(''101'', 57), (''000'', 40), (''100'', 1), (''110'', 1), (''001'', 1)]"

text \<open>How Python prints a \<open>Counter\<close>: \<open>Counter({'111': 27, '000': 16})\<close>.\<close>

fun digits :: "nat \<Rightarrow> string" where
  "digits n =
     (if n < 10 then [''0123456789'' ! n]
      else digits (n div 10) @ [''0123456789'' ! (n mod 10)])"

primrec join_comma :: "string list \<Rightarrow> string" where
  "join_comma [] = []"
| "join_comma (t # ts) = (if ts = [] then t else t @ '', '' @ join_comma ts)"

definition show_counts :: "(string \<times> nat) list \<Rightarrow> string" where
  "show_counts cs =
     ''Counter({'' @
     join_comma (map (\<lambda>(k, n). [CHR 0x27] @ k @ [CHR 0x27] @ '': '' @ digits n) cs) @
     ''})''"

definition is_invoke_of :: "val \<Rightarrow> event \<Rightarrow> bool" where
  "is_invoke_of f ev = (case ev of Called (Invoke g _ _) _ \<Rightarrow> g = f | _ \<Rightarrow> False)"

definition is_method :: "string \<Rightarrow> event \<Rightarrow> bool" where
  "is_method name ev = (case ev of Called (Method _ n _ _) _ \<Rightarrow> n = name | _ \<Rightarrow> False)"

definition recorded_attr :: "nat \<Rightarrow> string \<Rightarrow> exn + val" where
  "recorded_attr n a =
     (if n = 3 \<and> a = ''pi'' then Inr (DecV 3141592653589793 15)
      else if n = 10 \<and> a = ''name'' then Inr (Str ''Aspen-8'')
      else if n = 10 \<and> a = ''properties'' then Inr (Obj 12)
      else if n = 12 \<and> a = ''paradigm'' then Inr (Obj 13)
      else if n = 13 \<and> a = ''connectivity'' then Inr (Obj 14)
      else if n = 14 \<and> a = ''connectivityGraph'' then Inr (Obj 15)
      else if n = 300 \<and> a = ''measurement_counts'' then Inr (Counts counts_1)
      else if n = 301 \<and> a = ''measurement_counts'' then Inr (Counts counts_2)
      else if n = 302 \<and> a = ''measurement_counts'' then Inr (Counts counts_3)
      else if (n = 300 \<or> n = 301) \<and> a = ''additional_metadata'' then Inr (Obj (n + 10))
      else if (n = 310 \<or> n = 311) \<and> a = ''rigettiMetadata'' then Inr (Obj (n + 10))
      else if n = 320 \<and> a = ''compiledProgram'' then Inr (Str program_1)
      else if n = 321 \<and> a = ''compiledProgram'' then Inr (Str program_2)
      else Inl ''AttributeError'')"

definition recorded_method ::
  "event list \<Rightarrow> nat \<Rightarrow> string \<Rightarrow> val list \<Rightarrow> (string \<times> val) list \<Rightarrow> exn + val" where
  "recorded_method hist n name args kw =
     (if 100 \<le> n \<and> n < 200 \<and> name \<in> set builders \<and> kw = [] then Inr (Obj n)
      else if (n = 10 \<or> n = 11) \<and> name = ''run''
        then Inr (Obj (200 + length (filter (is_method ''run'') hist)))
      else if 200 \<le> n \<and> n < 300 \<and> name = ''state'' \<and> args = [] \<and> kw = []
        then Inr (Str ''COMPLETED'')
      else if 200 \<le> n \<and> n < 300 \<and> name = ''result'' \<and> args = [] \<and> kw = []
        then Inr (Obj (n + 100))
      else Inl ''AttributeError'')"

definition recorded_reply :: "event list \<Rightarrow> call \<Rightarrow> exn + val" where
  "recorded_reply hist c =
     (case c of
        Import m n \<Rightarrow>
          (if m = ''braket.aws'' \<and> n = Some ''AwsDevice'' then Inr (Obj 1)
           else if m = ''braket.circuits'' \<and> n = Some ''Circuit'' then Inr (Obj 2)
           else if m = ''numpy'' \<and> n = None then Inr (Obj 3)
           else Inl ''ModuleNotFoundError'')
      | GetAttr v a \<Rightarrow>
          (case v of Obj n \<Rightarrow> recorded_attr n a | _ \<Rightarrow> Inl ''AttributeError'')
      | Invoke f args kw \<Rightarrow>
          (if f = Obj 1 \<and> args = [Str rigetti_arn] \<and> kw = [] then Inr (Obj 10)
           else if f = Obj 1 \<and> args = [Str ionq_arn] \<and> kw = [] then Inr (Obj 11)
           else if f = Obj 2 \<and> args = [] \<and> kw = []
             then Inr (Obj (100 + length (filter (is_invoke_of (Obj 2)) hist)))
           else Inl ''TypeError'')
      | Method r name args kw \<Rightarrow>
          (case r of Obj n \<Rightarrow> recorded_method hist n name args kw
           | _ \<Rightarrow> Inl ''AttributeError''))"

definition recorded_render :: "event list \<Rightarrow> val \<Rightarrow> exn + string" where
  "recorded_render hist v =
     (case v of
        Counts cs \<Rightarrow> Inr (show_counts cs)
      | Obj n \<Rightarrow>
          (if n = 15 then Inr connectivity_text
           else if n = 100 then Inr diagram_1
           else if n = 101 then Inr diagram_2
           else Inl ''unrecorded'')
      | _ \<Rightarrow> Inl ''unrecorded'')"

definition recorded :: sdk where
  "recorded = \<lparr>reply = recorded_reply, render = recorded_render\<rparr>"

text \<open>
  The stdout stored in the notebook file, one text per \<open>print\<close> (the file stores the two
  prints of cell 7, and of cell 10, as one stream).
\<close>

definition recorded_stdout :: "string list" where
  "recorded_stdout =
     [''the connectivity of Aspen-8 is: '' @ connectivity_text @ nl,
      diagram_1 @ nl,
      ''Status of task: COMPLETED'' @ nl,
      ''Measurement counts: '' @ show_counts counts_1 @ nl,
      ''The compiled circuit is:'' @ nl @ '' '' @ program_1 @ nl,
      diagram_2 @ nl,
      ''Status of task: COMPLETED'' @ nl,
      ''Measurement counts: '' @ show_counts counts_2 @ nl,
      ''The compiled circuit is:'' @ nl @ '' '' @ program_2 @ nl,
      ''Status of task: COMPLETED'' @ nl,
      ''Measurement counts: '' @ show_counts counts_3 @ nl]"

primrec printed :: "event list \<Rightarrow> string list" where
  "printed [] = []"
| "printed (ev # evs) = (case ev of Printed t \<Rightarrow> t # printed evs | _ \<Rightarrow> printed evs)"


text \<open>
  The same service, slower: every task is still queued when its status is read. (A task on
  a QPU waits for the device's next availability window; \<open>result()\<close> is what waits.)
\<close>

definition pending_reply :: "event list \<Rightarrow> call \<Rightarrow> exn + val" where
  "pending_reply hist c =
     (case c of
        Method _ name _ _ \<Rightarrow>
          (if name = ''state'' then Inr (Str ''QUEUED'') else recorded_reply hist c)
      | _ \<Rightarrow> recorded_reply hist c)"

definition pending :: sdk where
  "pending = \<lparr>reply = pending_reply, render = recorded_render\<rparr>"

text \<open>
  The same service, stricter: it refuses the submission that prescribes the qubits
  (\<open>disable_qubit_rewiring=True\<close>), as it does when a qubit or a pair of the circuit is
  not in the device's connectivity graph.
\<close>

definition rejecting_reply :: "event list \<Rightarrow> call \<Rightarrow> exn + val" where
  "rejecting_reply hist c =
     (case c of
        Method _ name _ kw \<Rightarrow>
          (if name = ''run'' \<and> map_of kw ''disable_qubit_rewiring'' = Some (BoolV True)
           then Inl ''ValidationException''
           else recorded_reply hist c)
      | _ \<Rightarrow> recorded_reply hist c)"

definition rejecting :: sdk where
  "rejecting = \<lparr>reply = rejecting_reply, render = recorded_render\<rparr>"

text \<open>
  The same service with the first task cancelled before its status is read: \<open>state()\<close>
  answers \<open>CANCELLED\<close>, one of the statuses the SDK passes through from the service.
\<close>

definition cancelled_reply :: "event list \<Rightarrow> call \<Rightarrow> exn + val" where
  "cancelled_reply hist c =
     (case c of
        Method _ name _ _ \<Rightarrow>
          (if name = ''state'' then Inr (Str ''CANCELLED'') else recorded_reply hist c)
      | _ \<Rightarrow> recorded_reply hist c)"

definition cancelled :: sdk where
  "cancelled = \<lparr>reply = cancelled_reply, render = recorded_render\<rparr>"

subsection \<open>The storage location of a task\<close>

definition s3_pair :: val where
  "s3_pair = Tuple [Str ''amazon-braket-Your-Bucket-Name'', Str ''Your-Folder-Name'']"

text \<open>
  An event agrees with the storage location when it is not about it, or it binds
  \<open>s3_folder\<close> to the pair of cell 2, or it is a \<open>run\<close> whose second argument is that pair.
\<close>

definition folder_ok :: "event \<Rightarrow> bool" where
  "folder_ok ev =
     (case ev of
        Bound x v \<Rightarrow> (if x = ''s3_folder'' then v = s3_pair else True)
      | Called (Method _ name args _) _ \<Rightarrow>
          (if name = ''run'' then (case args of [_, f] \<Rightarrow> f = s3_pair | _ \<Rightarrow> False) else True)
      | _ \<Rightarrow> True)"

definition folder_inv :: "nb_state \<Rightarrow> bool" where
  "folder_inv s =
     (list_all folder_ok (trace s) \<and>
      (case vars s ''s3_folder'' of None \<Rightarrow> True | Some v \<Rightarrow> v = s3_pair))"

definition call_folder_ok :: "call \<Rightarrow> bool" where
  "call_folder_ok c =
     (case c of
        Method _ name args _ \<Rightarrow>
          (if name = ''run'' then (case args of [_, f] \<Rightarrow> f = s3_pair | _ \<Rightarrow> False) else True)
      | _ \<Rightarrow> True)"

text \<open>
  A piece of the notebook keeps the storage location when, from any state that satisfies
  \<open>folder_inv\<close>, it ends in one that does, whether it returns or raises; \<open>Q\<close> is what is
  known of the value it returns.
\<close>

definition keeps :: "('a \<Rightarrow> bool) \<Rightarrow> 'a nb \<Rightarrow> bool" where
  "keeps Q m =
     (\<forall>s. folder_inv s \<longrightarrow>
        (case m s of (r, s') \<Rightarrow>
           folder_inv s' \<and> (case r of Inr v \<Rightarrow> Q v | Inl _ \<Rightarrow> True)))"


subsection \<open>What the notebook reaches\<close>

text \<open>
  The modules the notebook imports, the methods it calls and the names it reads. A step is
  within them when it imports one of the three modules, calls one of the seven methods or
  reads a name the notebook itself bound; an attribute read, a call of an imported class,
  a \<open>str\<close> and a \<open>print\<close> always are.
\<close>

definition imported :: "(string \<times> string option) list" where
  "imported =
     [(''braket.aws'', Some ''AwsDevice''), (''braket.circuits'', Some ''Circuit''),
      (''numpy'', None)]"

definition methods_called :: "string list" where
  "methods_called = builders @ [''run'', ''state'', ''result'']"

definition names_bound :: "string list" where
  "names_bound =
     [''AwsDevice'', ''Circuit'', ''np'', ''my_bucket'', ''my_prefix'', ''s3_folder'', ''device'',
      ''connectivity_graph'', ''circuit'', ''rigetti_rewiring'', ''result'', ''counts'',
      ''rigetti_task'', ''ionq_task'']"

definition within_reach :: "kind \<Rightarrow> bool" where
  "within_reach k =
     (case k of
        KImport m n \<Rightarrow> (m, n) \<in> set imported
      | KMethod name _ _ \<Rightarrow> name \<in> set methods_called
      | KRead x \<Rightarrow> x \<in> set names_bound
      | KBound x \<Rightarrow> x \<in> set names_bound
      | _ \<Rightarrow> True)"

subsection \<open>The uses of a task handle\<close>

definition task_vars :: "string list" where
  "task_vars = [''rigetti_rewiring'', ''rigetti_task'', ''ionq_task'']"

text \<open>Each step with the step after it.\<close>

fun adjacent :: "'a list \<Rightarrow> ('a \<times> 'a) list" where
  "adjacent (x # y # zs) = (x, y) # adjacent (y # zs)"
| "adjacent _ = []"

text \<open>
  A task handle is used rightly when the step after the read of a task variable is
  \<open>state()\<close> or \<open>result()\<close>, and a task variable is bound only by the step after a \<open>run\<close>.
\<close>

definition task_use_ok :: "kind \<times> kind \<Rightarrow> bool" where
  "task_use_ok p =
     ((case fst p of
         KRead x \<Rightarrow>
           (if x \<in> set task_vars
            then snd p = KMethod ''state'' 0 [] \<or> snd p = KMethod ''result'' 0 []
            else True)
       | _ \<Rightarrow> True) \<and>
      (case snd p of
         KBound x \<Rightarrow>
           (if x \<in> set task_vars
            then (case fst p of KMethod name _ _ \<Rightarrow> name = ''run'' | _ \<Rightarrow> False)
            else True)
       | _ \<Rightarrow> True))"

definition lifecycle :: "val list" where
  "lifecycle = [Str ''QUEUED'', Str ''RUNNING'', Str ''COMPLETED'', Str ''FAILED'']"

subsection \<open>Circuits and their gate records\<close>

text \<open>
  Modelled from the spec: the SDK's \<open>Circuit\<close> class is not in the repository. The spec
  calls a circuit "an ordered sequence of gate-application records built via a fluent
  API": the gate records of a circuit object are the builder calls that returned on it,
  in the order they were made, each with its arguments.
\<close>

definition gate_of :: "val \<Rightarrow> event \<Rightarrow> (string \<times> val list) option" where
  "gate_of c ev =
     (case ev of
        Called (Method r name args _) (Inr _) \<Rightarrow>
          (if r = c \<and> name \<in> set builders then Some (name, args) else None)
      | _ \<Rightarrow> None)"

definition gates_on :: "val \<Rightarrow> event list \<Rightarrow> (string \<times> val list) list" where
  "gates_on c tr = List.map_filter (gate_of c) tr"

text \<open>
  Modelled from the spec: a fluent builder returns the object it was called on, whatever
  the gate and its arguments, so that the next call of a chain is made on the same circuit.
\<close>

definition fluent :: "sdk \<Rightarrow> val \<Rightarrow> bool" where
  "fluent env c =
     (\<forall>hist name args. name \<in> set builders \<longrightarrow> reply env hist (Method c name args []) = Inr c)"

text \<open>
  A chain of builder calls \<open>m.g1(args1).g2(args2)...\<close> with literal arguments, as the
  notebook writes them: each call is made on what the call before returned.
\<close>

definition chain :: "sdk \<Rightarrow> val nb \<Rightarrow> (string \<times> val list) list \<Rightarrow> val nb" where
  "chain env m gs = foldl (\<lambda>m' g. method_call env m' (fst g) (map lit (snd g)) []) m gs"

section \<open>What every piece of the notebook performs\<close>

lemma ends_well_append:
  assumes "ends_well k1 e1 (Inr v)" and "ends_well k2 e2 r"
  shows "ends_well (k1 @ k2) (e1 @ e2) r"
  using assms by (cases r) (auto simp: ends_well_def butlast_append)

lemma ends_well_left:
  assumes "ends_well k1 e1 (Inl err)"
  shows "ends_well (k1 @ k2) e1 (Inl err)"
  using assms by (auto simp: ends_well_def intro: prefix_order.trans)

lemma performsI:
  assumes "\<And>s. bound_in B s \<Longrightarrow>
     \<exists>evs. trace (snd (m s)) = trace s @ evs \<and> ends_well ks evs (fst (m s))"
    and "\<And>s v s'. bound_in B s \<Longrightarrow> m s = (Inr v, s') \<Longrightarrow> bound_in B' s'"
  shows "performs B ks B' m"
  unfolding performs_def
proof (intro allI impI)
  fix s assume b: "bound_in B s"
  obtain r s' where ms: "m s = (r, s')" by (cases "m s")
  from assms(1)[OF b] ms have 1: "\<exists>evs. trace s' = trace s @ evs \<and> ends_well ks evs r" by simp
  have 2: "case r of Inr _ \<Rightarrow> bound_in B' s' | Inl _ \<Rightarrow> True"
    using assms(2)[OF b] ms by (cases r) auto
  from 1 2 ms show "case m s of (r, s') \<Rightarrow>
           (\<exists>evs. trace s' = trace s @ evs \<and> ends_well ks evs r) \<and>
           (case r of Inr _ \<Rightarrow> bound_in B' s' | Inl _ \<Rightarrow> True)" by simp
qed

lemma performsD:
  assumes "performs B ks B' m" and "bound_in B s" and "m s = (r, s')"
  shows "\<exists>evs. trace s' = trace s @ evs \<and> ends_well ks evs r"
    and "\<And>v. r = Inr v \<Longrightarrow> bound_in B' s'"
proof -
  from assms(1)[unfolded performs_def, rule_format, OF assms(2)] assms(3)
  have both: "(\<exists>evs. trace s' = trace s @ evs \<and> ends_well ks evs r) \<and>
      (case r of Inr _ \<Rightarrow> bound_in B' s' | Inl _ \<Rightarrow> True)"
    by simp
  from both show "\<exists>evs. trace s' = trace s @ evs \<and> ends_well ks evs r" by blast
  fix v assume "r = Inr v"
  with both show "bound_in B' s'" by simp
qed

text \<open>Sequencing, with what is known of the value the first part returns.\<close>

lemma performs_bnd_val:
  assumes m: "performs B k1 B1 m"
    and val: "\<And>s v s'. m s = (Inr v, s') \<Longrightarrow> P v"
    and f: "\<And>v. P v \<Longrightarrow> performs B1 k2 B2 (f v)"
    and ks: "ks = k1 @ k2"
  shows "performs B ks B2 (bnd m f)"
proof (rule performsI)
  fix s assume b: "bound_in B s"
  obtain r s1 where ms: "m s = (r, s1)" by (cases "m s")
  from performsD(1)[OF m b ms] obtain e1 where
    e1: "trace s1 = trace s @ e1" "ends_well k1 e1 r" by blast
  show "\<exists>evs. trace (snd (bnd m f s)) = trace s @ evs \<and> ends_well ks evs (fst (bnd m f s))"
  proof (cases r)
    case (Inl err)
    with ms e1 ks show ?thesis
      by (auto simp: bnd_def intro: ends_well_left)
  next
    case (Inr v)
    with ms have pv: "P v" using val by blast
    from performsD(2)[OF m b ms Inr] have b1: "bound_in B1 s1" .
    obtain r2 s2 where fs: "f v s1 = (r2, s2)" by (cases "f v s1")
    from performsD(1)[OF f[OF pv] b1 fs] obtain e2 where
      e2: "trace s2 = trace s1 @ e2" "ends_well k2 e2 r2" by blast
    from e1 Inr have "ends_well k1 e1 (Inr v :: error + 'a)" by simp
    from ends_well_append[OF this e2(2)] e1(1) e2(1) ms fs Inr ks show ?thesis
      by (auto simp: bnd_def)
  qed
next
  fix s v s' assume b: "bound_in B s" and res: "bnd m f s = (Inr v, s')"
  obtain r s1 where ms: "m s = (r, s1)" by (cases "m s")
  with res obtain u where u: "r = Inr u" "f u s1 = (Inr v, s')"
    by (cases r) (auto simp: bnd_def)
  from ms u val have pv: "P u" by blast
  from performsD(2)[OF m b ms u(1)] have b1: "bound_in B1 s1" .
  from performsD(2)[OF f[OF pv] b1 u(2)] show "bound_in B2 s'" by simp
qed

lemma performs_bnd:
  assumes "performs B k1 B1 m" and "\<And>v. performs B1 k2 B2 (f v)" and "ks = k1 @ k2"
  shows "performs B ks B2 (bnd m f)"
  by (rule performs_bnd_val[where P = "\<lambda>_. True", OF assms(1) _ assms(2) assms(3)]) simp

lemma performs_ret: "performs B [] B (ret v)"
  by (rule performsI) (auto simp: ret_def ends_well_def)

lemma performs_lit: "performs B [] B (lit v)"
  unfolding lit_def by (rule performs_ret)

lemma performs_request:
  assumes "ks = [call_kind c]"
  shows "performs B ks B (request env c)"
  using assms
  by (intro performsI)
     (auto simp: request_def ends_well_def Let_def kind_def kind_def call_kind_def succeeded_def
       failure_def bound_in_def split: sum.splits call.splits)

lemma performs_var:
  assumes "x \<in> set B" and "ks = [KRead x]"
  shows "performs B ks B (var x)"
  using assms
  by (intro performsI)
     (auto simp: var_def ends_well_def kind_def succeeded_def bound_in_def list_all_iff
       split: option.splits)

lemma performs_to_str: "performs B [KRendered] B (to_str env v)"
  by (intro performsI)
     (auto simp: to_str_def ends_well_def Let_def kind_def succeeded_def failure_def
       bound_in_def split: sum.splits)

lemma performs_emit:
  assumes "ks = [kind ev]" and "succeeded ev"
  shows "performs B ks B (emit ev)"
  using assms by (intro performsI) (auto simp: emit_def ends_well_def bound_in_def)

lemma evals_length:
  "evals ms s = (Inr vs, s') \<Longrightarrow> length vs = length ms"
proof (induction ms arbitrary: s vs s')
  case Nil
  then show ?case by (simp add: ret_def)
next
  case (Cons m ms)
  then show ?case
    by (auto simp: bnd_def ret_def split: prod.splits sum.splits)
qed

lemma kwevals_names:
  "kwevals kw s = (Inr ks, s') \<Longrightarrow> map fst ks = map fst kw"
proof (induction kw arbitrary: s ks s')
  case Nil
  then show ?case by (simp add: ret_def)
next
  case (Cons k kw)
  then show ?case
    by (auto simp: bnd_def ret_def split: prod.splits sum.splits)
qed

lemma strs_length:
  "strs env vs s = (Inr ts, s') \<Longrightarrow> length ts = length vs"
proof (induction vs arbitrary: s ts s')
  case Nil
  then show ?case by (simp add: ret_def)
next
  case (Cons v vs)
  then show ?case
    by (auto simp: bnd_def ret_def split: prod.splits sum.splits)
qed

text \<open>Argument lists: the steps of the arguments, one after the other.\<close>

lemma performs_evals_nil: "performs B [] B (evals [])"
  by (simp add: performs_ret)

lemma performs_evals_cons:
  assumes "performs B k B m" and "performs B ks B (evals ms)" and "K = k @ ks"
  shows "performs B K B (evals (m # ms))"
  unfolding evals.simps
  by (rule performs_bnd[OF assms(1) _ assms(3)])
     (rule performs_bnd[OF assms(2) performs_ret], simp)

lemma performs_kwevals_nil: "performs B [] B (kwevals [])"
  by (simp add: performs_ret)

lemma performs_kwevals_cons:
  assumes "performs B k B m" and "performs B ks B (kwevals kw)" and "K = k @ ks"
  shows "performs B K B (kwevals ((x, m) # kw))"
  unfolding kwevals.simps snd_conv fst_conv
  by (rule performs_bnd[OF assms(1) _ assms(3)])
     (rule performs_bnd[OF assms(2) performs_ret], simp)

lemma performs_strs: "performs B (replicate (length vs) KRendered) B (strs env vs)"
proof (induction vs)
  case Nil
  then show ?case by (simp add: performs_ret)
next
  case (Cons v vs)
  show ?case
    unfolding strs.simps
    by (rule performs_bnd[OF performs_to_str])
       (rule performs_bnd[OF Cons performs_ret], simp, simp)
qed

lemma performs_attr:
  assumes "performs B k B m" and "K = k @ [KGetAttr a]"
  shows "performs B K B (attr env m a)"
  unfolding attr_def
  by (rule performs_bnd[OF assms(1) _ assms(2)]) (rule performs_request, simp add: call_kind_def)

lemma performs_method:
  assumes "performs B k B m" and "performs B ks B (evals args)"
    and "performs B kks B (kwevals kw)"
    and "K = k @ ks @ kks @ [KMethod name (length args) (map fst kw)]"
  shows "performs B K B (method_call env m name args kw)"
  unfolding method_call_def
proof (rule performs_bnd[OF assms(1) _ assms(4)])
  fix r
  show "performs B (ks @ kks @ [KMethod name (length args) (map fst kw)]) B
     (bnd (evals args) (\<lambda>vs. bnd (kwevals kw) (\<lambda>ks. request env (Method r name vs ks))))"
  proof (rule performs_bnd_val[where P = "\<lambda>vs. length vs = length args", OF assms(2)])
    fix vs :: "val list" assume len: "length vs = length args"
    show "performs B (kks @ [KMethod name (length args) (map fst kw)]) B
       (bnd (kwevals kw) (\<lambda>ks. request env (Method r name vs ks)))"
    proof (rule performs_bnd_val[where P = "\<lambda>ks. map fst ks = map fst kw", OF assms(3)])
      fix ks :: "(string \<times> val) list" assume "map fst ks = map fst kw"
      with len show "performs B [KMethod name (length args) (map fst kw)] B
        (request env (Method r name vs ks))"
        by (intro performs_request) (simp add: call_kind_def)
    qed (auto dest: kwevals_names)
  qed (auto dest: evals_length)
qed

lemma performs_invoke:
  assumes "performs B k B f" and "performs B ks B (evals args)"
    and "performs B kks B (kwevals kw)"
    and "K = k @ ks @ kks @ [KInvoke (length args) (map fst kw)]"
  shows "performs B K B (invoke env f args kw)"
  unfolding invoke_def
proof (rule performs_bnd[OF assms(1) _ assms(4)])
  fix r
  show "performs B (ks @ kks @ [KInvoke (length args) (map fst kw)]) B
     (bnd (evals args) (\<lambda>vs. bnd (kwevals kw) (\<lambda>ks. request env (Invoke r vs ks))))"
  proof (rule performs_bnd_val[where P = "\<lambda>vs. length vs = length args", OF assms(2)])
    fix vs :: "val list" assume len: "length vs = length args"
    show "performs B (kks @ [KInvoke (length args) (map fst kw)]) B
       (bnd (kwevals kw) (\<lambda>ks. request env (Invoke r vs ks)))"
    proof (rule performs_bnd_val[where P = "\<lambda>ks. map fst ks = map fst kw", OF assms(3)])
      fix ks :: "(string \<times> val) list" assume "map fst ks = map fst kw"
      with len show "performs B [KInvoke (length args) (map fst kw)] B
        (request env (Invoke r vs ks))"
        by (intro performs_request) (simp add: call_kind_def)
    qed (auto dest: kwevals_names)
  qed (auto dest: evals_length)
qed

lemma performs_tuple:
  assumes "performs B ks B (evals ms)"
  shows "performs B ks B (tuple ms)"
  unfolding tuple_def by (rule performs_bnd[OF assms performs_ret]) simp

lemma performs_divide:
  assumes "performs B k1 B m1" and "performs B k2 B m2" and "K = k1 @ k2"
  shows "performs B K B (divide_py m1 m2)"
  unfolding divide_py_def
  by (rule performs_bnd[OF assms(1) _ assms(3)])
     (rule performs_bnd[OF assms(2) performs_ret], simp)

lemma performs_fparts_nil: "performs B [] B (fparts env [])"
  by (simp add: performs_ret)

lemma performs_fparts_text:
  assumes "performs B ks B (fparts env ps)"
  shows "performs B ks B (fparts env (Text t # ps))"
  unfolding fparts.simps fpart.case
  by (rule performs_bnd[OF assms performs_ret]) simp

lemma performs_fparts_field:
  assumes "performs B k B m" and "performs B ks B (fparts env ps)"
    and "K = k @ [KRendered] @ ks"
  shows "performs B K B (fparts env (Field m # ps))"
  unfolding fparts.simps fpart.case
  by (rule performs_bnd[OF assms(1) _ assms(3)])
     (rule performs_bnd[OF performs_to_str],
      rule performs_bnd[OF assms(2) performs_ret], simp, simp)

lemma performs_fstring:
  assumes "performs B ks B (fparts env ps)"
  shows "performs B ks B (fstring env ps)"
  unfolding fstring_def by (rule performs_bnd[OF assms performs_ret]) simp

lemma performs_print:
  assumes "performs B ks B (evals args)"
    and "K = ks @ replicate (length args) KRendered @ [KPrinted]"
  shows "performs B K B (print_py env args)"
  unfolding print_py_def
proof (rule performs_bnd_val[where P = "\<lambda>vs. length vs = length args", OF assms(1) _ _ assms(2)])
  fix vs :: "val list" assume "length vs = length args"
  then show "performs B (replicate (length args) KRendered @ [KPrinted]) B
     (bnd (strs env vs) (\<lambda>ts. emit (Printed (join_sp ts @ nl))))"
    by (intro performs_bnd[OF performs_strs] performs_emit)
       (simp_all add: kind_def succeeded_def)
qed (auto dest: evals_length)

lemma performs_bind:
  "performs B [KBound x] (x # B)
     (\<lambda>s. (Inr (), s\<lparr>vars := (vars s)(x \<mapsto> v), trace := trace s @ [Bound x v]\<rparr>))"
  by (intro performsI)
     (auto simp: ends_well_def kind_def succeeded_def bound_in_def list_all_iff)

lemma performs_assign:
  assumes "performs B k B m" and "K = k @ [KBound x]"
  shows "performs B K (x # B) (assign x m)"
  unfolding assign_def
  by (rule performs_bnd[OF assms(1) performs_bind assms(2)])

lemma performs_expr_stmt:
  assumes "performs B k B m"
  shows "performs B k B (expr_stmt m)"
  unfolding expr_stmt_def by (rule performs_bnd[OF assms performs_ret]) simp

lemma performs_import:
  assumes "K = [KImport module name, KBound x]"
  shows "performs B K (x # B) (import_py env module name x)"
  unfolding import_py_def
  by (rule performs_assign[OF performs_request]) (simp_all add: call_kind_def assms)

lemma performs_seq_nil:
  assumes "set B' \<subseteq> set B"
  shows "performs B [] B' (seq [])"
  using assms
  by (intro performsI) (auto simp: ret_def ends_well_def bound_in_def list_all_iff)

lemma performs_seq_cons:
  assumes "performs B k B1 m" and "performs B1 ks B2 (seq ms)" and "K = k @ ks"
  shows "performs B K B2 (seq (m # ms))"
  unfolding seq.simps by (rule performs_bnd[OF assms(1) assms(2) assms(3)])

lemmas performs_rules =
  performs_seq_cons performs_seq_nil performs_assign performs_expr_stmt performs_import
  performs_print performs_fstring performs_fparts_field performs_fparts_text
  performs_fparts_nil performs_divide performs_tuple performs_invoke performs_method
  performs_attr performs_evals_cons performs_evals_nil performs_kwevals_cons
  performs_kwevals_nil performs_var performs_lit


lemma cell_1_performs:
  "performs B steps_1 (''np'' # ''Circuit'' # ''AwsDevice'' # B) (cell_1 env)"
  unfolding cell_1_def steps_1_def
  by (rule performs_rules | simp)+

lemma cell_2_performs:
  "performs B steps_2 (''s3_folder'' # ''my_prefix'' # ''my_bucket'' # B) (cell_2 env)"
  unfolding cell_2_def steps_2_def
  by (rule performs_rules | simp)+

lemma cell_3_performs:
  assumes "''AwsDevice'' \<in> set B"
  shows "performs B steps_3 (''connectivity_graph'' # ''device'' # B) (cell_3 env)"
  unfolding cell_3_def steps_3_def
  by (rule performs_rules | simp add: assms)+

lemma cell_4_performs:
  assumes "''Circuit'' \<in> set B" "''device'' \<in> set B" "''s3_folder'' \<in> set B"
  shows "performs B steps_4 (''rigetti_rewiring'' # ''circuit'' # B) (cell_4 env)"
  unfolding cell_4_def steps_4_def
  by (rule performs_rules | simp add: assms)+

lemma cell_6_performs:
  assumes "''rigetti_rewiring'' \<in> set B"
  shows "performs B steps_6 B (cell_6 env)"
  unfolding cell_6_def steps_6_def
  by (rule performs_rules | simp add: assms)+

lemma cell_7_performs:
  assumes "''rigetti_rewiring'' \<in> set B"
  shows "performs B steps_7 (''counts'' # ''result'' # B) (cell_7 env)"
  unfolding cell_7_def steps_7_def
  by (rule performs_rules | simp add: assms)+

lemma cell_8_performs:
  assumes "''Circuit'' \<in> set B" "''np'' \<in> set B" "''device'' \<in> set B"
    "''s3_folder'' \<in> set B"
  shows "performs B steps_8 (''rigetti_task'' # ''circuit'' # B) (cell_8 env)"
  unfolding cell_8_def steps_8_def
  by (rule performs_rules | simp add: assms)+

lemma cell_9_performs:
  assumes "''rigetti_task'' \<in> set B"
  shows "performs B steps_9 B (cell_9 env)"
  unfolding cell_9_def steps_9_def
  by (rule performs_rules | simp add: assms)+

lemma cell_10_performs:
  assumes "''rigetti_task'' \<in> set B"
  shows "performs B steps_10 (''counts'' # ''result'' # B) (cell_10 env)"
  unfolding cell_10_def steps_10_def
  by (rule performs_rules | simp add: assms)+

lemma cell_23_performs:
  assumes "''Circuit'' \<in> set B" "''AwsDevice'' \<in> set B" "''s3_folder'' \<in> set B"
  shows "performs B steps_23 (''ionq_task'' # ''device'' # ''circuit'' # B) (cell_23 env)"
  unfolding cell_23_def steps_23_def
  by (rule performs_rules | simp add: assms)+

lemma cell_26_performs:
  assumes "''ionq_task'' \<in> set B"
  shows "performs B steps_26 B (cell_26 env)"
  unfolding cell_26_def steps_26_def
  by (rule performs_rules | simp add: assms)+

lemma cell_29_performs:
  assumes "''ionq_task'' \<in> set B"
  shows "performs B steps_29 (''counts'' # ''result'' # B) (cell_29 env)"
  unfolding cell_29_def steps_29_def
  by (rule performs_rules | simp add: assms)+

lemmas cell_performs =
  cell_1_performs cell_2_performs cell_3_performs cell_4_performs cell_6_performs
  cell_7_performs cell_8_performs cell_9_performs cell_10_performs cell_23_performs
  cell_26_performs cell_29_performs

lemma notebook_performs:
  "performs [] notebook_steps [] (seq (cells env))"
  unfolding cells_def notebook_steps_def example_1_def example_2_def example_3_def
  by (rule performs_seq_cons performs_seq_nil cell_performs | simp)+


section \<open>The storage location is kept\<close>

lemma keepsI:
  assumes "\<And>s. folder_inv s \<Longrightarrow> folder_inv (snd (m s))"
    and "\<And>s v s'. folder_inv s \<Longrightarrow> m s = (Inr v, s') \<Longrightarrow> Q v"
  shows "keeps Q m"
  unfolding keeps_def
proof (intro allI impI)
  fix s assume i: "folder_inv s"
  obtain r s' where ms: "m s = (r, s')" by (cases "m s")
  from assms(1)[OF i] ms have 1: "folder_inv s'" by simp
  have 2: "case r of Inr v \<Rightarrow> Q v | Inl _ \<Rightarrow> True"
    using assms(2)[OF i] ms by (cases r) auto
  from 1 2 ms show "case m s of (r, s') \<Rightarrow>
     folder_inv s' \<and> (case r of Inr v \<Rightarrow> Q v | Inl _ \<Rightarrow> True)" by simp
qed

lemma keepsD:
  assumes "keeps Q m" and "folder_inv s" and "m s = (r, s')"
  shows "folder_inv s'" and "\<And>v. r = Inr v \<Longrightarrow> Q v"
proof -
  from assms(1)[unfolded keeps_def, rule_format, OF assms(2)] assms(3)
  have both: "folder_inv s' \<and> (case r of Inr v \<Rightarrow> Q v | Inl _ \<Rightarrow> True)" by simp
  then show "folder_inv s'" by blast
  fix v assume "r = Inr v"
  with both show "Q v" by simp
qed

lemma keeps_bnd:
  assumes m: "keeps P m" and f: "\<And>v. P v \<Longrightarrow> keeps Q (f v)"
  shows "keeps Q (bnd m f)"
proof (rule keepsI)
  fix s assume i: "folder_inv s"
  obtain r s1 where ms: "m s = (r, s1)" by (cases "m s")
  note i1 = keepsD(1)[OF m i ms]
  show "folder_inv (snd (bnd m f s))"
  proof (cases r)
    case (Inl e)
    with ms i1 show ?thesis by (simp add: bnd_def)
  next
    case (Inr v)
    from keepsD(2)[OF m i ms Inr] have pv: "P v" .
    obtain r2 s2 where fs: "f v s1 = (r2, s2)" by (cases "f v s1")
    from keepsD(1)[OF f[OF pv] i1 fs] ms Inr fs show ?thesis by (simp add: bnd_def)
  qed
next
  fix s v s' assume i: "folder_inv s" and res: "bnd m f s = (Inr v, s')"
  obtain r s1 where ms: "m s = (r, s1)" by (cases "m s")
  with res obtain u where u: "r = Inr u" "f u s1 = (Inr v, s')"
    by (cases r) (auto simp: bnd_def)
  from keepsD(2)[OF m i ms u(1)] have pu: "P u" .
  from keepsD(2)[OF f[OF pu] keepsD(1)[OF m i ms] u(2)] show "Q v" by simp
qed

lemma keeps_weaken:
  assumes "keeps P m" and "\<And>v. P v \<Longrightarrow> Q v"
  shows "keeps Q m"
  using assms unfolding keeps_def by (fastforce split: prod.splits sum.splits)

lemma keeps_ret: "Q v \<Longrightarrow> keeps Q (ret v)"
  by (rule keepsI) (auto simp: ret_def)

lemma keeps_lit: "keeps (\<lambda>_. True) (lit v)"
  unfolding lit_def by (rule keeps_ret) simp

lemma keeps_var: "keeps (\<lambda>v. x = ''s3_folder'' \<longrightarrow> v = s3_pair) (var x)"
  by (rule keepsI)
     (auto simp: var_def folder_inv_def folder_ok_def split: option.splits)

lemma keeps_request:
  assumes "call_folder_ok c"
  shows "keeps (\<lambda>_. True) (request env c)"
  using assms
  by (intro keepsI)
     (auto simp: request_def Let_def folder_inv_def folder_ok_def call_folder_ok_def
       split: call.splits if_splits list.splits)

lemma keeps_to_str: "keeps (\<lambda>_. True) (to_str env v)"
  by (rule keepsI) (auto simp: to_str_def Let_def folder_inv_def folder_ok_def)

lemma keeps_emit_printed: "keeps (\<lambda>_. True) (emit (Printed t))"
  by (rule keepsI) (auto simp: emit_def folder_inv_def folder_ok_def)

lemma keeps_evals_nil: "keeps (\<lambda>vs. vs = []) (evals [])"
  by (simp add: keeps_ret)

lemma keeps_evals_cons:
  assumes "keeps P m" and "keeps Ps (evals ms)"
  shows "keeps (\<lambda>l. case l of [] \<Rightarrow> False | v # vs \<Rightarrow> P v \<and> Ps vs) (evals (m # ms))"
  unfolding evals.simps
  by (rule keeps_bnd[OF assms(1)], rule keeps_bnd[OF assms(2)], rule keeps_ret) simp

lemma keeps_kwevals_nil: "keeps (\<lambda>_. True) (kwevals [])"
  by (simp add: keeps_ret)

lemma keeps_kwevals_cons:
  assumes "keeps P m" and "keeps (\<lambda>_. True) (kwevals kw)"
  shows "keeps (\<lambda>_. True) (kwevals ((x, m) # kw))"
  unfolding kwevals.simps snd_conv fst_conv
  by (rule keeps_bnd[OF assms(1)], rule keeps_bnd[OF assms(2)], rule keeps_ret) simp

lemma keeps_strs: "keeps (\<lambda>_. True) (strs env vs)"
proof (induction vs)
  case Nil
  then show ?case by (simp add: keeps_ret)
next
  case (Cons v vs)
  show ?case
    unfolding strs.simps
    by (rule keeps_bnd[OF keeps_to_str], rule keeps_bnd[OF Cons], rule keeps_ret) simp
qed

lemma keeps_attr:
  assumes "keeps P m"
  shows "keeps (\<lambda>_. True) (attr env m a)"
  unfolding attr_def
  by (rule keeps_bnd[OF assms], rule keeps_request) (simp add: call_folder_ok_def)

lemma keeps_invoke:
  assumes "keeps P0 f" and "keeps P (evals args)" and "keeps Pk (kwevals kw)"
  shows "keeps (\<lambda>_. True) (invoke env f args kw)"
  unfolding invoke_def
  by (rule keeps_bnd[OF assms(1)], rule keeps_bnd[OF assms(2)], rule keeps_bnd[OF assms(3)],
      rule keeps_request) (simp add: call_folder_ok_def)

lemma keeps_method:
  assumes "keeps P0 m" and "keeps P (evals args)" and "keeps Pk (kwevals kw)"
    and "\<And>vs. name = ''run'' \<Longrightarrow> P vs \<Longrightarrow> (case vs of [_, f] \<Rightarrow> f = s3_pair | _ \<Rightarrow> False)"
  shows "keeps (\<lambda>_. True) (method_call env m name args kw)"
  unfolding method_call_def
  by (rule keeps_bnd[OF assms(1)], rule keeps_bnd[OF assms(2)], rule keeps_bnd[OF assms(3)],
      rule keeps_request) (simp add: call_folder_ok_def assms(4))

lemma keeps_tuple:
  assumes "keeps P (evals ms)"
  shows "keeps (\<lambda>_. True) (tuple ms)"
  unfolding tuple_def by (rule keeps_bnd[OF assms], rule keeps_ret) simp

lemma keeps_divide:
  assumes "keeps P1 m1" and "keeps P2 m2"
  shows "keeps (\<lambda>_. True) (divide_py m1 m2)"
  unfolding divide_py_def
  by (rule keeps_bnd[OF assms(1)], rule keeps_bnd[OF assms(2)], rule keeps_ret) simp

lemma keeps_fparts_nil: "keeps (\<lambda>_. True) (fparts env [])"
  by (simp add: keeps_ret)

lemma keeps_fparts_text:
  assumes "keeps (\<lambda>_. True) (fparts env ps)"
  shows "keeps (\<lambda>_. True) (fparts env (Text t # ps))"
  unfolding fparts.simps fpart.case
  by (rule keeps_bnd[OF assms], rule keeps_ret) simp

lemma keeps_fparts_field:
  assumes "keeps P m" and "keeps (\<lambda>_. True) (fparts env ps)"
  shows "keeps (\<lambda>_. True) (fparts env (Field m # ps))"
  unfolding fparts.simps fpart.case
  by (rule keeps_bnd[OF assms(1)], rule keeps_bnd[OF keeps_to_str],
      rule keeps_bnd[OF assms(2)], rule keeps_ret) simp

lemma keeps_fstring:
  assumes "keeps P (fparts env ps)"
  shows "keeps (\<lambda>_. True) (fstring env ps)"
  unfolding fstring_def by (rule keeps_bnd[OF assms], rule keeps_ret) simp

lemma keeps_print:
  assumes "keeps P (evals args)"
  shows "keeps (\<lambda>_. True) (print_py env args)"
  unfolding print_py_def
  by (rule keeps_bnd[OF assms], rule keeps_bnd[OF keeps_strs], rule keeps_emit_printed)

lemma keeps_bind:
  assumes "x = ''s3_folder'' \<Longrightarrow> v = s3_pair"
  shows "keeps (\<lambda>_. True)
     (\<lambda>s. (Inr (), s\<lparr>vars := (vars s)(x \<mapsto> v), trace := trace s @ [Bound x v]\<rparr>))"
  using assms by (intro keepsI) (auto simp: folder_inv_def folder_ok_def)

lemma keeps_assign:
  assumes "keeps P m" and "\<And>v. x = ''s3_folder'' \<Longrightarrow> P v \<Longrightarrow> v = s3_pair"
  shows "keeps (\<lambda>_. True) (assign x m)"
  unfolding assign_def
  by (rule keeps_bnd[OF assms(1)], rule keeps_bind) (simp add: assms(2))

lemma keeps_expr_stmt:
  assumes "keeps P m"
  shows "keeps (\<lambda>_. True) (expr_stmt m)"
  unfolding expr_stmt_def by (rule keeps_bnd[OF assms], rule keeps_ret) simp

lemma keeps_import:
  assumes "x \<noteq> ''s3_folder''"
  shows "keeps (\<lambda>_. True) (import_py env module name x)"
  unfolding import_py_def
  by (rule keeps_assign[OF keeps_request]) (simp_all add: call_folder_ok_def assms)

lemma keeps_seq_nil: "keeps (\<lambda>_. True) (seq [])"
  by (simp add: keeps_ret)

lemma keeps_seq_cons:
  assumes "keeps P m" and "keeps (\<lambda>_. True) (seq ms)"
  shows "keeps (\<lambda>_. True) (seq (m # ms))"
  unfolding seq.simps by (rule keeps_bnd[OF assms(1) assms(2)])

lemmas keeps_rules =
  keeps_seq_cons keeps_seq_nil keeps_assign keeps_expr_stmt keeps_import keeps_print
  keeps_fstring keeps_fparts_field keeps_fparts_text keeps_fparts_nil keeps_divide keeps_tuple
  keeps_invoke keeps_method keeps_attr keeps_evals_cons keeps_evals_nil keeps_kwevals_cons
  keeps_kwevals_nil keeps_var keeps_lit

lemma cell_1_keeps: "keeps (\<lambda>_. True) (cell_1 env)"
  unfolding cell_1_def by (rule keeps_rules | simp split: list.splits)+

lemma cell_2_keeps: "keeps (\<lambda>_. True) (cell_2 env)"
  by (rule keepsI)
     (auto simp: cell_2_def ret_def bnd_def lit_def var_def tuple_def assign_def folder_inv_def
       folder_ok_def s3_pair_def)

lemma cell_3_keeps: "keeps (\<lambda>_. True) (cell_3 env)"
  unfolding cell_3_def by (rule keeps_rules | simp split: list.splits)+

lemma cell_4_keeps: "keeps (\<lambda>_. True) (cell_4 env)"
  unfolding cell_4_def by (rule keeps_rules | simp split: list.splits)+

lemma cell_6_keeps: "keeps (\<lambda>_. True) (cell_6 env)"
  unfolding cell_6_def by (rule keeps_rules | simp split: list.splits)+

lemma cell_7_keeps: "keeps (\<lambda>_. True) (cell_7 env)"
  unfolding cell_7_def by (rule keeps_rules | simp split: list.splits)+

lemma cell_8_keeps: "keeps (\<lambda>_. True) (cell_8 env)"
  unfolding cell_8_def by (rule keeps_rules | simp split: list.splits)+

lemma cell_9_keeps: "keeps (\<lambda>_. True) (cell_9 env)"
  unfolding cell_9_def by (rule keeps_rules | simp split: list.splits)+

lemma cell_10_keeps: "keeps (\<lambda>_. True) (cell_10 env)"
  unfolding cell_10_def by (rule keeps_rules | simp split: list.splits)+

lemma cell_23_keeps: "keeps (\<lambda>_. True) (cell_23 env)"
  unfolding cell_23_def by (rule keeps_rules | simp split: list.splits)+

lemma cell_26_keeps: "keeps (\<lambda>_. True) (cell_26 env)"
  unfolding cell_26_def by (rule keeps_rules | simp split: list.splits)+

lemma cell_29_keeps: "keeps (\<lambda>_. True) (cell_29 env)"
  unfolding cell_29_def by (rule keeps_rules | simp split: list.splits)+

lemmas cell_keeps =
  cell_1_keeps cell_2_keeps cell_3_keeps cell_4_keeps cell_6_keeps cell_7_keeps cell_8_keeps
  cell_9_keeps cell_10_keeps cell_23_keeps cell_26_keeps cell_29_keeps

lemma notebook_keeps: "keeps (\<lambda>_. True) (seq (cells env))"
  unfolding cells_def by (rule keeps_seq_cons keeps_seq_nil cell_keeps)+

lemma notebook_folder_ok: "list_all folder_ok (trace (snd (run_notebook env)))"
proof -
  have i: "folder_inv fresh" by (simp add: folder_inv_def fresh_def)
  obtain r s where rs: "seq (cells env) fresh = (r, s)" by (cases "seq (cells env) fresh")
  from keepsD(1)[OF notebook_keeps i rs] rs show ?thesis
    by (simp add: run_notebook_def folder_inv_def)
qed


section \<open>Chains of builder calls\<close>

lemma evals_lits: "evals (map lit vs) s = (Inr vs, s)"
  by (induction vs) (simp_all add: lit_def ret_def bnd_def)

lemma method_lits:
  assumes "m s = (Inr c, s0)"
  shows "method_call env m name (map lit args) [] s =
     (case reply env (trace s0) (Method c name args []) of
        Inl e \<Rightarrow> Inl (Raised e) | Inr v \<Rightarrow> Inr v,
      s0\<lparr>trace := trace s0 @ [Called (Method c name args []) (reply env (trace s0) (Method c name args []))]\<rparr>)"
  using assms by (simp add: method_call_def bnd_def evals_lits ret_def request_def Let_def)

lemma map_filter_append: "List.map_filter f (xs @ ys) = List.map_filter f xs @ List.map_filter f ys"
  by (simp add: List.map_filter_def)

lemma gates_on_append: "gates_on c (xs @ ys) = gates_on c xs @ gates_on c ys"
  by (simp add: gates_on_def map_filter_append)

lemma chain_snoc: "chain env m (gs @ [g]) = method_call env (chain env m gs) (fst g) (map lit (snd g)) []"
  by (simp add: chain_def)

lemma chain_events:
  assumes "fluent env c" and "m s = (Inr c, s0)"
    and "list_all (\<lambda>g. fst g \<in> set builders) gs"
  shows "chain env m gs s =
     (Inr c, s0\<lparr>trace := trace s0 @ map (\<lambda>g. Called (Method c (fst g) (snd g) []) (Inr c)) gs\<rparr>)"
  using assms(3)
proof (induction gs rule: rev_induct)
  case Nil
  with assms(2) show ?case by (simp add: chain_def)
next
  case (snoc g gs)
  then have ih: "chain env m gs s =
     (Inr c, s0\<lparr>trace := trace s0 @ map (\<lambda>g. Called (Method c (fst g) (snd g) []) (Inr c)) gs\<rparr>)"
    and g: "fst g \<in> set builders" by simp_all
  from assms(1) g have r: "\<And>hist. reply env hist (Method c (fst g) (snd g) []) = Inr c"
    by (simp add: fluent_def)
  show ?case
    unfolding chain_snoc by (simp add: method_lits[where m = "chain env m gs" and s = s, OF ih] r)
qed

lemma gates_on_builder_calls:
  assumes "list_all (\<lambda>g. fst g \<in> set builders) gs"
  shows "gates_on c (map (\<lambda>g. Called (Method c (fst g) (snd g) []) (Inr c)) gs) = gs"
  using assms by (induction gs) (auto simp: gates_on_def gate_of_def List.map_filter_simps)

lemma ghz_chain:
  "method_call env (method_call env (method_call env (var ''circuit'')
     ''h'' [lit (IntV 0)] [])
     ''cnot'' [lit (IntV 0), lit (IntV 2)] [])
     ''cnot'' [lit (IntV 0), lit (IntV 4)] [] =
   chain env (var ''circuit'')
     [(''h'', [IntV 0]), (''cnot'', [IntV 0, IntV 2]), (''cnot'', [IntV 0, IntV 4])]"
  by (simp add: chain_def)

lemma recorded_fluent: "fluent recorded (Obj 100)"
  by (simp add: fluent_def recorded_def recorded_reply_def recorded_method_def)


section \<open>Three runs\<close>

lemmas nb_defs = ret_def bnd_def emit_def request_def lit_def var_def attr_def invoke_def
  method_call_def tuple_def divide_py_def to_str_def fstring_def print_py_def assign_def
  expr_stmt_def import_py_def

lemmas cell_defs = cell_1_def cell_2_def cell_3_def cell_4_def cell_6_def cell_7_def cell_8_def
  cell_9_def cell_10_def cell_23_def cell_26_def cell_29_def

lemmas recorded_defs = recorded_def recorded_reply_def recorded_render_def recorded_attr_def
  recorded_method_def is_method_def is_invoke_of_def builders_def rigetti_arn_def ionq_arn_def

lemmas run_defs = run_notebook_def run_cells_def cells_def cell_defs nb_defs fresh_def Let_def

text \<open>The recorded run returns, prints the stored outputs and reads these statuses.\<close>

lemma recorded_run:
  "case run_notebook recorded of (r, s) \<Rightarrow>
     r = Inr () \<and>
     printed (trace s) = recorded_stdout \<and>
     statuses (trace s) = [Str ''COMPLETED'', Str ''COMPLETED'', Str ''COMPLETED'']"
  by (simp add: run_defs recorded_defs recorded_stdout_def)

lemma recorded_returns: "fst (run_notebook recorded) = Inr ()"
  using recorded_run by (simp split: prod.splits)

text \<open>With every task still queued, cell 6 reads the status once, prints it and returns.\<close>

lemma pending_first_status:
  "case run_cells pending 5 of (r, s) \<Rightarrow>
     r = Inr () \<and> statuses (trace s) = [Str ''QUEUED''] \<and>
     last (printed (trace s)) = ''Status of task: QUEUED'' @ nl"
  by (simp add: run_defs recorded_defs pending_def pending_reply_def)

text \<open>With the task cancelled, cell 6 reads that status, prints it and returns.\<close>

lemma cancelled_first_status:
  "case run_cells cancelled 5 of (r, s) \<Rightarrow>
     r = Inr () \<and> statuses (trace s) = [Str ''CANCELLED''] \<and>
     last (printed (trace s)) = ''Status of task: CANCELLED'' @ nl"
  by (simp add: run_defs recorded_defs cancelled_def cancelled_reply_def)

text \<open>Refused, the notebook ends at the submission of cell 8.\<close>

lemma rejecting_run:
  "case run_notebook rejecting of (r, s) \<Rightarrow>
     r = Inl (Raised ''ValidationException'') \<and>
     last (trace s) =
       Called
         (Method (Obj 10) ''run'' [Obj 101, s3_pair]
            [(''shots'', IntV 100), (''disable_qubit_rewiring'', BoolV True)])
         (Inl ''ValidationException'')"
  by (simp add: run_defs recorded_defs rejecting_def rejecting_reply_def s3_pair_def)

section \<open>The whole notebook\<close>

lemma notebook_ends_well:
  "ends_well notebook_steps (trace (snd (run_notebook env))) (fst (run_notebook env))"
proof -
  have b: "bound_in [] fresh" by (simp add: bound_in_def)
  obtain r s where rs: "seq (cells env) fresh = (r, s)" by (cases "seq (cells env) fresh")
  from performsD(1)[OF notebook_performs b rs] rs show ?thesis
    by (simp add: run_notebook_def fresh_def)
qed

lemma notebook_kinds_prefix:
  "prefix (map kind (trace (snd (run_notebook env)))) notebook_steps"
  using notebook_ends_well[of env]
  by (cases "fst (run_notebook env)") (simp_all add: ends_well_def)

lemma notebook_kinds_complete:
  "fst (run_notebook env) = Inr v \<Longrightarrow> map kind (trace (snd (run_notebook env))) = notebook_steps"
  using notebook_ends_well[of env] by (simp add: ends_well_def)

lemma prefix_list_all:
  "prefix xs ys \<Longrightarrow> list_all P ys \<Longrightarrow> list_all P xs"
  by (auto simp: prefix_def)

lemma adjacent_append:
  "list_all P (adjacent (xs @ zs)) \<Longrightarrow> list_all P (adjacent xs)"
  by (induction xs rule: adjacent.induct) auto

lemma prefix_adjacent:
  "prefix xs ys \<Longrightarrow> list_all P (adjacent ys) \<Longrightarrow> list_all P (adjacent xs)"
  by (auto simp: prefix_def dest: adjacent_append)

lemma printed_length: "length (printed tr) = count_kind KPrinted (map kind tr)"
  by (induction tr)
     (auto simp: count_kind_def kind_def call_kind_def split: event.splits call.splits)

lemmas steps_defs = notebook_steps_def example_1_def example_2_def example_3_def steps_1_def
  steps_2_def steps_3_def steps_4_def steps_6_def steps_7_def steps_8_def steps_9_def
  steps_10_def steps_23_def steps_26_def steps_29_def

section \<open>The claims\<close>

text \<open>
  C1, as amended. Whatever the SDK answers, the notebook performs one fixed sequence of
  steps, or a beginning of it when a request raises. In that sequence the first example
  goes through parameter entry, device instantiation, circuit construction, submission,
  one read of the status and the fetch of the result, in this order; the second example
  enters no parameter and instantiates no device (it uses those of the first); the third
  builds its circuit before it instantiates its device. Each example reads the status of
  its task once: there is no loop.
\<close>

theorem notebook_order:
  "(case run_notebook env of
      (Inr _, s) \<Rightarrow> map kind (trace s) = notebook_steps
    | (Inl _, s) \<Rightarrow> prefix (map kind (trace s)) notebook_steps) \<and>
   phases example_1 = claimed_order \<and>
   phases example_2 = [Circuit_construction, Submission, Status_read, Result_fetch] \<and>
   phases example_3 =
     [Circuit_construction, Device_instantiation, Submission, Status_read, Result_fetch] \<and>
   map (count_kind (KMethod ''state'' 0 [])) [example_1, example_2, example_3] = [1, 1, 1]"
proof -
  have "case run_notebook env of
      (Inr _, s) \<Rightarrow> map kind (trace s) = notebook_steps
    | (Inl _, s) \<Rightarrow> prefix (map kind (trace s)) notebook_steps"
    using notebook_ends_well[of env]
    by (cases "run_notebook env") (auto simp: ends_well_def split: sum.splits)
  moreover have "phases example_1 = claimed_order"
    by (simp add: phases_def phase_of_def claimed_order_def builders_def steps_defs
        List.map_filter_simps)
  moreover have "phases example_2 = [Circuit_construction, Submission, Status_read, Result_fetch]"
    by (simp add: phases_def phase_of_def builders_def steps_defs List.map_filter_simps)
  moreover have "phases example_3 =
     [Circuit_construction, Device_instantiation, Submission, Status_read, Result_fetch]"
    by (simp add: phases_def phase_of_def builders_def steps_defs List.map_filter_simps)
  moreover have
    "map (count_kind (KMethod ''state'' 0 [])) [example_1, example_2, example_3] = [1, 1, 1]"
    by (simp add: count_kind_def steps_defs)
  ultimately show ?thesis by blast
qed

theorem notebook_order_witness:
  "map kind (trace (snd (run_notebook recorded))) = notebook_steps"
  using notebook_order[of recorded] recorded_returns
  by (cases "run_notebook recorded") auto

text \<open>
  C1 as stated fails. In the recorded run the second example goes through no parameter
  entry and no device instantiation, and the third constructs its circuit before it
  instantiates its device. And no cell polls: with a service that reports every task as
  queued, cell 6 reads the status once, prints \<open>Status of task: QUEUED\<close> and returns.
\<close>

theorem order_counterexample:
  "phases (take (length example_2) (drop (length (steps_1 @ example_1))
      (map kind (trace (snd (run_notebook recorded)))))) =
     [Circuit_construction, Submission, Status_read, Result_fetch] \<and>
   phases (drop (length (steps_1 @ example_1 @ example_2))
      (map kind (trace (snd (run_notebook recorded))))) =
     [Circuit_construction, Device_instantiation, Submission, Status_read, Result_fetch] \<and>
   phases (drop (length (steps_1 @ example_1 @ example_2))
      (map kind (trace (snd (run_notebook recorded))))) \<noteq> claimed_order \<and>
   (case run_cells pending 5 of (r, s) \<Rightarrow>
      r = Inr () \<and> statuses (trace s) = [Str ''QUEUED''] \<and>
      last (printed (trace s)) = ''Status of task: QUEUED'' @ nl)"
proof -
  have k: "map kind (trace (snd (run_notebook recorded))) = notebook_steps"
    by (rule notebook_kinds_complete[OF recorded_returns])
  have d2: "take (length example_2) (drop (length (steps_1 @ example_1)) notebook_steps) =
      example_2"
    by (simp add: notebook_steps_def)
  have d3: "drop (length (steps_1 @ example_1 @ example_2)) notebook_steps = example_3"
    by (simp add: notebook_steps_def)
  have p2: "phases example_2 = [Circuit_construction, Submission, Status_read, Result_fetch]"
    by (simp add: phases_def phase_of_def builders_def steps_defs List.map_filter_simps)
  have p3: "phases example_3 =
     [Circuit_construction, Device_instantiation, Submission, Status_read, Result_fetch]"
    by (simp add: phases_def phase_of_def builders_def steps_defs List.map_filter_simps)
  from k d2 d3 p2 p3 pending_first_status show ?thesis
    by (simp add: claimed_order_def)
qed

text \<open>
  C2. The notebook raises only what a request to the SDK raised: when it ends in an
  error, the last thing it did is the request that raised, the error is that request's
  exception, unchanged, and every step before succeeded (no handler, no retry, nothing
  after the failure). When no request raises it performs all its steps and returns: no
  check of its own stops it.
\<close>

theorem sdk_failures_only:
  "case run_notebook env of
     (Inr _, s) \<Rightarrow> list_all succeeded (trace s) \<and> map kind (trace s) = notebook_steps
   | (Inl err, s) \<Rightarrow>
       trace s \<noteq> [] \<and> failure err (last (trace s)) \<and> list_all succeeded (butlast (trace s))"
  using notebook_ends_well[of env]
  by (cases "run_notebook env") (auto simp: ends_well_def split: sum.splits)

theorem sdk_failures_only_witness:
  "fst (run_notebook rejecting) = Inl (Raised ''ValidationException'') \<and>
   last (trace (snd (run_notebook rejecting))) =
     Called
       (Method (Obj 10) ''run'' [Obj 101, s3_pair]
          [(''shots'', IntV 100), (''disable_qubit_rewiring'', BoolV True)])
       (Inl ''ValidationException'') \<and>
   failure (Raised ''ValidationException'') (last (trace (snd (run_notebook rejecting)))) \<and>
   list_all succeeded (butlast (trace (snd (run_notebook rejecting))))"
  using sdk_failures_only[of rejecting] rejecting_run
  by (cases "run_notebook rejecting") auto

text \<open>
  C3. Under the spec's description of the SDK's builder (a fluent call returns the circuit
  it was made on; a circuit's gate records are the builder calls made on it), a chain of
  builder calls on a circuit \<open>c\<close> returns \<open>c\<close>, adds one event per call, and appends the
  calls' gate records to those of \<open>c\<close> in the order of the calls.
\<close>

theorem chain_in_call_order:
  assumes "fluent env c" and "m s = (Inr c, s0)"
    and "list_all (\<lambda>g. fst g \<in> set builders) gs"
  shows "\<exists>s'. chain env m gs s = (Inr c, s') \<and>
     gates_on c (trace s') = gates_on c (trace s0) @ gs \<and>
     length (trace s') = length (trace s0) + length gs"
  using chain_events[where m = m and s = s, OF assms] gates_on_builder_calls[OF assms(3), of c]
  by (simp add: gates_on_append)

theorem chain_in_call_order_witness:
  "fluent recorded (Obj 100) \<and>
   (\<exists>s'. chain recorded (var ''circuit'')
       [(''h'', [IntV 0]), (''cnot'', [IntV 0, IntV 2]), (''cnot'', [IntV 0, IntV 4])]
       \<lparr>vars = [''circuit'' \<mapsto> Obj 100], trace = []\<rparr> = (Inr (Obj 100), s') \<and>
      gates_on (Obj 100) (trace s') =
        [(''h'', [IntV 0]), (''cnot'', [IntV 0, IntV 2]), (''cnot'', [IntV 0, IntV 4])])"
proof -
  have v: "var ''circuit'' \<lparr>vars = [''circuit'' \<mapsto> Obj 100], trace = []\<rparr> =
      (Inr (Obj 100), \<lparr>vars = [''circuit'' \<mapsto> Obj 100], trace = [Read ''circuit'' (Obj 100)]\<rparr>)"
    by (simp add: var_def)
  have b: "list_all (\<lambda>g. fst g \<in> set builders)
      [(''h'', [IntV 0]), (''cnot'', [IntV 0, IntV 2]), (''cnot'', [IntV 0, IntV 4])]"
    by (simp add: builders_def)
  from chain_in_call_order[where m = "var ''circuit''" and
      s = "\<lparr>vars = [''circuit'' \<mapsto> Obj 100], trace = []\<rparr>", OF recorded_fluent v b]
    recorded_fluent
  show ?thesis
    by (auto simp: gates_on_def List.map_filter_simps gate_of_def)
qed

text \<open>
  C4. Whatever the SDK answers, every \<open>run\<close> the notebook requests has two arguments, the
  second the pair (bucket name, folder prefix) of cell 2, and \<open>s3_folder\<close> is never bound
  to anything else; a run of the notebook that returns has bound \<open>s3_folder\<close> once and
  requested three runs (two with \<open>shots\<close> alone, one with \<open>disable_qubit_rewiring\<close> too).
\<close>

theorem same_folder_every_run:
  "list_all folder_ok (trace (snd (run_notebook env))) \<and>
   (case run_notebook env of
      (Inr _, s) \<Rightarrow>
        count_kind (KBound ''s3_folder'') (map kind (trace s)) = 1 \<and>
        count_kind (KMethod ''run'' 2 [''shots'']) (map kind (trace s)) +
        count_kind (KMethod ''run'' 2 [''shots'', ''disable_qubit_rewiring''])
          (map kind (trace s)) = 3
    | (Inl _, s) \<Rightarrow> True)"
proof -
  have "count_kind (KBound ''s3_folder'') notebook_steps = 1"
    by (simp add: count_kind_def steps_defs)
  moreover have "count_kind (KMethod ''run'' 2 [''shots'']) notebook_steps +
      count_kind (KMethod ''run'' 2 [''shots'', ''disable_qubit_rewiring'']) notebook_steps = 3"
    by (simp add: count_kind_def steps_defs)
  ultimately have "case run_notebook env of
      (Inr _, s) \<Rightarrow>
        count_kind (KBound ''s3_folder'') (map kind (trace s)) = 1 \<and>
        count_kind (KMethod ''run'' 2 [''shots'']) (map kind (trace s)) +
        count_kind (KMethod ''run'' 2 [''shots'', ''disable_qubit_rewiring''])
          (map kind (trace s)) = 3
    | (Inl _, s) \<Rightarrow> True"
    using notebook_ends_well[of env]
    by (cases "run_notebook env") (auto simp: ends_well_def split: sum.splits)
  with notebook_folder_ok[of env] show ?thesis by blast
qed

theorem same_folder_every_run_witness:
  "list_all folder_ok (trace (snd (run_notebook recorded))) \<and>
   count_kind (KBound ''s3_folder'') (map kind (trace (snd (run_notebook recorded)))) = 1"
  using same_folder_every_run[of recorded] recorded_returns
  by (cases "run_notebook recorded") auto

text \<open>
  C5. Whatever the SDK answers, everything a run does is within the notebook's reach: it
  imports the SDK's two classes and numpy, reads and binds its own variables, reads
  attributes, calls the imported classes and the seven methods, converts values to text
  and prints. Nothing opens or writes a file, parses a command line or encodes a message.
  The text it produces is what its \<open>print\<close> statements write: eleven texts in a run that
  returns.
\<close>

theorem output_is_console_text:
  "list_all (\<lambda>ev. within_reach (kind ev)) (trace (snd (run_notebook env))) \<and>
   (case run_notebook env of
      (Inr _, s) \<Rightarrow> length (printed (trace s)) = 11
    | (Inl _, s) \<Rightarrow> True)"
proof -
  have "list_all within_reach notebook_steps"
    by (simp add: within_reach_def imported_def methods_called_def builders_def names_bound_def
        steps_defs)
  from prefix_list_all[OF notebook_kinds_prefix this]
  have 1: "list_all (\<lambda>ev. within_reach (kind ev)) (trace (snd (run_notebook env)))"
    by (simp add: list.pred_map comp_def)
  have "count_kind KPrinted notebook_steps = 11"
    by (simp add: count_kind_def steps_defs)
  then have 2: "case run_notebook env of
      (Inr _, s) \<Rightarrow> length (printed (trace s)) = 11
    | (Inl _, s) \<Rightarrow> True"
    using notebook_ends_well[of env]
    by (cases "run_notebook env") (auto simp: ends_well_def printed_length split: sum.splits)
  from 1 2 show ?thesis by blast
qed

text \<open>
  C6. With the SDK and the service answering as recorded, the notebook runs to its end
  without an exception (so does each of its cells), its eleven \<open>print\<close> statements write
  exactly the stdout stored in the notebook file, and none of the eleven texts is empty or
  a bare newline.
\<close>

theorem recorded_run_completes:
  "case run_notebook recorded of (r, s) \<Rightarrow>
     r = Inr () \<and> printed (trace s) = recorded_stdout \<and> length (printed (trace s)) = 11 \<and>
     list_all (\<lambda>t. t \<noteq> [] \<and> t \<noteq> nl) (printed (trace s))"
proof -
  have "length recorded_stdout = 11" by (simp add: recorded_stdout_def)
  moreover have "list_all (\<lambda>t. t \<noteq> [] \<and> t \<noteq> nl) recorded_stdout"
    by (simp add: recorded_stdout_def nl_def diagram_1_def diagram_2_def)
  ultimately show ?thesis using recorded_run by (auto split: prod.splits)
qed

text \<open>
  C7, as amended. Whatever the SDK answers, the step after each read of a task variable is
  \<open>state()\<close> or \<open>result()\<close>, without arguments, and a task variable is bound only to what
  a \<open>run\<close> returned: the notebook never cancels a task or calls anything else on it. The
  status it reads is whatever the service answers, and it prints it unchecked; in the
  recorded run every status read is one of queued, running, completed and failed (each is
  \<open>COMPLETED\<close>).
\<close>

theorem task_handles_read_only:
  "list_all task_use_ok (adjacent (map kind (trace (snd (run_notebook env))))) \<and>
   list_all (\<lambda>v. v \<in> set lifecycle) (statuses (trace (snd (run_notebook recorded))))"
proof -
  have "list_all task_use_ok (adjacent notebook_steps)"
    by (simp add: task_use_ok_def task_vars_def steps_defs)
  from prefix_adjacent[OF notebook_kinds_prefix this]
  have "list_all task_use_ok (adjacent (map kind (trace (snd (run_notebook env)))))" .
  moreover have "list_all (\<lambda>v. v \<in> set lifecycle) (statuses (trace (snd (run_notebook recorded))))"
    using recorded_run by (auto simp: lifecycle_def split: prod.splits)
  ultimately show ?thesis by blast
qed

text \<open>
  C7 as stated fails in its last clause: the notebook observes whatever \<open>state()\<close> answers.
  With the first task cancelled, cell 6 returns having read and printed \<open>CANCELLED\<close>, which
  is none of queued, running, completed and failed.
\<close>

theorem status_counterexample:
  "case run_cells cancelled 5 of (r, s) \<Rightarrow>
     r = Inr () \<and> statuses (trace s) = [Str ''CANCELLED''] \<and>
     \<not> list_all (\<lambda>v. v \<in> set lifecycle) (statuses (trace s)) \<and>
     last (printed (trace s)) = ''Status of task: CANCELLED'' @ nl"
  using cancelled_first_status by (auto simp: lifecycle_def split: prod.splits)

end
